theory Spec2Isabelle
  imports Main "HOL-Library.Sublist"
begin

chapter \<open>The rearrange operation of Einops from Scratch\<close>

text \<open>
  A shallow embedding of \<open>Einops_from_scratch.ipynb\<close>: the exception \<open>EinopsError\<close>, the
  helpers \<open>_collect_identifiers\<close> (here \<open>collect_identifiers\<close>), \<open>validate_axes_lengths\<close>
  and \<open>parse_pattern\<close>, and \<open>rearrange\<close>. Python's exceptions are values of a sum type,
  its dictionaries are maps, the keyword arguments \<open>**axes_lengths\<close> are an association
  list, and the NumPy arrays live in a store that the call threads through.
\<close>

section \<open>Python strings as used by the pattern parser\<close>

text \<open>
  A Python \<open>str\<close> is modelled as a \<open>string\<close> (a list of 8-bit characters), so the
  patterns covered are those whose code points are below 256. \<open>isspace\<close> is
  \<open>str.isspace\<close> on one character, which is also what \<open>\s\<close> of the \<open>re\<close> module and
  the separator of \<open>str.split()\<close> mean for a \<open>str\<close>.
\<close>

definition isspace :: "char \<Rightarrow> bool" where
  "isspace c \<longleftrightarrow>
     c \<in> set [CHR 0x09, CHR 0x0A, CHR 0x0B, CHR 0x0C, CHR 0x0D, CHR 0x1C, CHR 0x1D,
              CHR 0x1E, CHR 0x1F, CHR 0x20, CHR 0x85, CHR 0xA0]"

definition startswith :: "string \<Rightarrow> string \<Rightarrow> bool" where
  "startswith s p \<longleftrightarrow> take (length p) s = p"

definition endswith :: "string \<Rightarrow> string \<Rightarrow> bool" where
  "endswith s p \<longleftrightarrow> length p \<le> length s \<and> drop (length s - length p) s = p"

text \<open>\<open>sub in s\<close> for strings: \<open>sub\<close> occurs in \<open>s\<close> as a contiguous run.\<close>

fun contains :: "string \<Rightarrow> string \<Rightarrow> bool" where
  "contains [] sub = (sub = [])"
| "contains (c # cs) sub = (startswith (c # cs) sub \<or> contains cs sub)"

text \<open>
  \<open>s.replace(old, new)\<close> for a non-empty \<open>old\<close>: the occurrences are found from the
  left and do not overlap. The counter is the number of characters of the occurrence
  just replaced that are still to be skipped.
\<close>

fun replace_from :: "string \<Rightarrow> string \<Rightarrow> nat \<Rightarrow> string \<Rightarrow> string" where
  "replace_from old new k [] = []"
| "replace_from old new k (c # cs) =
     (if 0 < k then replace_from old new (k - 1) cs
      else if startswith (c # cs) old then new @ replace_from old new (length old - 1) cs
      else c # replace_from old new 0 cs)"

definition replace :: "string \<Rightarrow> string \<Rightarrow> string \<Rightarrow> string" where
  "replace s old new = replace_from old new 0 s"

text \<open>
  \<open>s.split(sep)\<close> for a non-empty \<open>sep\<close>: every occurrence of the separator, found
  from the left, ends a part; empty parts are kept.
\<close>

fun split_from :: "string \<Rightarrow> nat \<Rightarrow> string \<Rightarrow> string \<Rightarrow> string list" where
  "split_from sep k cur [] = [cur]"
| "split_from sep k cur (c # cs) =
     (if 0 < k then split_from sep (k - 1) cur cs
      else if startswith (c # cs) sep then cur # split_from sep (length sep - 1) [] cs
      else split_from sep 0 (cur @ [c]) cs)"

definition split_on :: "string \<Rightarrow> string \<Rightarrow> string list" where
  "split_on s sep = split_from sep 0 [] s"

text \<open>\<open>s.split()\<close>: the maximal runs of characters that are not whitespace.\<close>

fun split_words :: "string \<Rightarrow> string \<Rightarrow> string list" where
  "split_words cur [] = (if cur = [] then [] else [cur])"
| "split_words cur (c # cs) =
     (if isspace c then (if cur = [] then split_words [] cs else cur # split_words [] cs)
      else split_words (cur @ [c]) cs)"

definition split :: "string \<Rightarrow> string list" where
  "split s = split_words [] s"

text \<open>\<open>s.strip()\<close> and \<open>s.strip(chars)\<close>.\<close>

definition strip :: "string \<Rightarrow> string" where
  "strip s = rev (dropWhile isspace (rev (dropWhile isspace s)))"

definition strip_chars :: "string \<Rightarrow> string \<Rightarrow> string" where
  "strip_chars s chars =
     rev (dropWhile (\<lambda>c. c \<in> set chars) (rev (dropWhile (\<lambda>c. c \<in> set chars) s)))"

text \<open>
  \<open>str(i)\<close> for a natural number, as the f-string \<open>f'_d{i}'\<close> renders it: the decimal
  digits, most significant first.
\<close>

definition digit_char :: "nat \<Rightarrow> char" where
  "digit_char d = ''0123456789'' ! d"

function str_nat :: "nat \<Rightarrow> string" where
  "str_nat n = (if n < 10 then [digit_char n] else str_nat (n div 10) @ [digit_char (n mod 10)])"
  by pat_completeness auto
termination
  by (relation "measure id") auto

declare str_nat.simps [simp del]

section \<open>The regular expression of the tokenizer\<close>

text \<open>
  \<open>re.findall(r'\(.*?\)|\.\.\.|\S+', s)\<close>. At each position the three alternatives
  are tried in order: an opening parenthesis up to the next closing one (the lazy
  \<open>.*?\<close> stops at the first \<open>)\<close>, and \<open>.\<close> does not match a newline), three dots, or a
  maximal run of characters that are not whitespace. Where none matches, the scan moves
  on by one character. No alternative matches the empty string.
\<close>

fun close_paren :: "string \<Rightarrow> nat option" where
  "close_paren [] = None"
| "close_paren (c # cs) =
     (if c = CHR '')'' then Some 0
      else if c = CHR 0x0A then None
      else map_option Suc (close_paren cs))"

definition paren_group :: "string \<Rightarrow> nat option" where
  "paren_group s =
     (case s of [] \<Rightarrow> None
      | c # cs \<Rightarrow> if c = CHR ''('' then map_option (\<lambda>j. j + 2) (close_paren cs) else None)"

definition match_at :: "string \<Rightarrow> nat option" where
  "match_at s =
     (case paren_group s of Some n \<Rightarrow> Some n
      | None \<Rightarrow>
          if startswith s ''...'' then Some 3
          else (case takeWhile (\<lambda>c. \<not> isspace c) s of [] \<Rightarrow> None | t # ts \<Rightarrow> Some (length (t # ts))))"

fun findall_from :: "nat \<Rightarrow> string \<Rightarrow> string list" where
  "findall_from k [] = []"
| "findall_from k (c # cs) =
     (if 0 < k then findall_from (k - 1) cs
      else (case match_at (c # cs) of
              None \<Rightarrow> findall_from 0 cs
            | Some n \<Rightarrow> take n (c # cs) # findall_from (n - 1) cs))"

definition findall :: "string \<Rightarrow> string list" where
  "findall s = findall_from 0 s"

section \<open>Errors\<close>

text \<open>
  Every \<open>raise EinopsError(...)\<close> of the source is one \<open>einops_error\<close>, named after the
  message it carries. The other exceptions are the ones Python and NumPy raise by
  themselves in the body of \<open>rearrange\<close>; the source catches none of them except the
  \<open>ValueError\<close> of the final \<open>reshape\<close>.
\<close>

datatype einops_error =
    MissingArrow
  | UnexpectedAxesLengthsKey
  | MismatchedParentheses
  | MultipleEllipsisInput
  | EllipsisAsymmetry
  | NotEnoughDimensions
  | MultipleUnknownDimensions
  | NonDivisibleCompositeSize
  | SizeMismatchComposite
  | DimensionSizeMismatch
  | ReshapeIncompatible

datatype pyerror =
    EinopsError einops_error
  | ValueError
  | IndexError
  | KeyError
  | ZeroDivisionError
  | AxisError

section \<open>Helper functions and pattern parsing\<close>

type_synonym axes_lengths = "(string \<times> int) list"

definition collect_identifiers :: "string \<Rightarrow> string set" where
  "collect_identifiers pattern =
     (let clean_pattern = replace (replace (replace pattern ''('' '' '') '')'' '' '') ''...'' '' ''
      in set (filter (\<lambda>token. token \<noteq> []) (split clean_pattern)))"

definition validate_axes_lengths :: "string \<Rightarrow> axes_lengths \<Rightarrow> pyerror + unit" where
  "validate_axes_lengths pattern axes_lengths =
     (let pattern_identifiers = collect_identifiers pattern;
          extra_keys = set (map fst axes_lengths) - pattern_identifiers
      in if extra_keys \<noteq> {} then Inl (EinopsError UnexpectedAxesLengthsKey) else Inr ())"

definition tokenize :: "string \<Rightarrow> string list" where
  "tokenize expr = findall (strip (replace expr ''...'' '' ... ''))"

definition parse_pattern :: "string \<Rightarrow> pyerror + (string list \<times> string list)" where
  "parse_pattern pattern =
     (if \<not> contains pattern ''->'' then Inl (EinopsError MissingArrow)
      else (case split_on pattern ''->'' of
              [input_part, output_part] \<Rightarrow> Inr (tokenize input_part, tokenize output_part)
            | _ \<Rightarrow> Inl ValueError))"

section \<open>Arrays and the NumPy primitives\<close>

text \<open>
  An \<open>ndarray\<close> is its shape and its elements in logical row-major order (the order in
  which \<open>flatten()\<close> lists them). Whether an array owns its buffer or is a view of
  another array's is not modelled: no primitive used here writes to an existing array.
\<close>

record 'a ndarray =
  nd_shape :: "nat list"
  nd_data :: "'a list"

definition wf_array :: "'a ndarray \<Rightarrow> bool" where
  "wf_array a \<longleftrightarrow> length (nd_data a) = prod_list (nd_shape a)"

text \<open>Row-major strides, and all the multi-indices of a shape in row-major order.\<close>

fun strides :: "nat list \<Rightarrow> nat list" where
  "strides [] = []"
| "strides (d # ds) = prod_list ds # strides ds"

fun indices :: "nat list \<Rightarrow> nat list list" where
  "indices [] = [[]]"
| "indices (d # ds) = concat (map (\<lambda>i. map ((#) i) (indices ds)) [0..<d])"

text \<open>
  \<open>np.transpose(a, axes)\<close>: the axes must be as many as the array has, each in range
  and none repeated; NumPy checks them one by one, in order.
\<close>

fun check_axes :: "nat \<Rightarrow> nat list \<Rightarrow> nat list \<Rightarrow> pyerror + unit" where
  "check_axes n seen [] = Inr ()"
| "check_axes n seen (ax # axes) =
     (if n \<le> ax then Inl AxisError
      else if ax \<in> set seen then Inl ValueError
      else check_axes n (ax # seen) axes)"

definition transpose_array :: "'a ndarray \<Rightarrow> nat list \<Rightarrow> pyerror + 'a ndarray" where
  "transpose_array a axes =
     (if length axes \<noteq> length (nd_shape a) then Inl ValueError
      else (case check_axes (length (nd_shape a)) [] axes of
              Inl e \<Rightarrow> Inl e
            | Inr _ \<Rightarrow>
                Inr \<lparr>nd_shape = map (\<lambda>ax. nd_shape a ! ax) axes,
                     nd_data =
                       map (\<lambda>idx. nd_data a !
                              sum_list (map (\<lambda>(i, ax). i * (strides (nd_shape a) ! ax)) (zip idx axes)))
                           (indices (map (\<lambda>ax. nd_shape a ! ax) axes))\<rparr>))"

text \<open>\<open>np.expand_dims(a, axis)\<close> for a non-negative axis.\<close>

definition expand_dims_array :: "'a ndarray \<Rightarrow> nat \<Rightarrow> pyerror + 'a ndarray" where
  "expand_dims_array a axis =
     (if length (nd_shape a) < axis then Inl AxisError
      else Inr (a\<lparr>nd_shape := take axis (nd_shape a) @ [1] @ drop axis (nd_shape a)\<rparr>))"

text \<open>
  \<open>np.repeat(a, repeats, axis)\<close> for a scalar \<open>repeats\<close>: every slice along the axis
  is laid out \<open>repeats\<close> times in a row. A negative count is a \<open>ValueError\<close>.
\<close>

definition repeat_array :: "'a ndarray \<Rightarrow> int \<Rightarrow> nat \<Rightarrow> pyerror + 'a ndarray" where
  "repeat_array a repeats axis =
     (if length (nd_shape a) \<le> axis then Inl AxisError
      else if repeats < 0 then Inl ValueError
      else
        (let inner = prod_list (drop (axis + 1) (nd_shape a));
             outer = prod_list (take (axis + 1) (nd_shape a))
         in Inr \<lparr>nd_shape = (nd_shape a)[axis := nd_shape a ! axis * nat repeats],
                 nd_data =
                   concat (map (\<lambda>i. concat (replicate (nat repeats)
                                  (take inner (drop (i * inner) (nd_data a)))))
                               [0..<outer])\<rparr>))"

text \<open>
  \<open>a.reshape(newshape)\<close>: a negative entry of the new shape is the one dimension
  NumPy infers from the others; the number of elements must be kept. The elements
  stay in their logical order.
\<close>

definition reshape_array :: "'a ndarray \<Rightarrow> int list \<Rightarrow> pyerror + 'a ndarray" where
  "reshape_array a newshape =
     (let s_original = int (prod_list (nd_shape a));
          s_known = prod_list (filter (\<lambda>d. 0 \<le> d) newshape);
          n_unknown = length (filter (\<lambda>d. d < 0) newshape)
      in if 1 < n_unknown then Inl ValueError
         else if n_unknown = 1 then
           (if s_known = 0 \<or> s_original mod s_known \<noteq> 0 then Inl ValueError
            else Inr (a\<lparr>nd_shape :=
                    map (\<lambda>d. if d < 0 then nat (s_original div s_known) else nat d) newshape\<rparr>))
         else if s_original \<noteq> s_known then Inl ValueError
         else Inr (a\<lparr>nd_shape := map nat newshape\<rparr>))"

subsection \<open>The store of array objects\<close>

text \<open>
  The arrays a call can reach live in a store; a reference is an index into it. Every
  NumPy primitive returns a new array object and leaves the existing ones as they are.
\<close>

type_synonym 'a heap = "'a ndarray list"

definition new_array :: "'a heap \<Rightarrow> pyerror + 'a ndarray \<Rightarrow> (pyerror + nat) \<times> 'a heap" where
  "new_array h r = (case r of Inl e \<Rightarrow> (Inl e, h) | Inr a \<Rightarrow> (Inr (length h), h @ [a]))"

definition np_transpose :: "'a heap \<Rightarrow> nat \<Rightarrow> nat list \<Rightarrow> (pyerror + nat) \<times> 'a heap" where
  "np_transpose h a axes = new_array h (transpose_array (h ! a) axes)"

definition np_expand_dims :: "'a heap \<Rightarrow> nat \<Rightarrow> nat \<Rightarrow> (pyerror + nat) \<times> 'a heap" where
  "np_expand_dims h a axis = new_array h (expand_dims_array (h ! a) axis)"

definition np_repeat :: "'a heap \<Rightarrow> nat \<Rightarrow> int \<Rightarrow> nat \<Rightarrow> (pyerror + nat) \<times> 'a heap" where
  "np_repeat h a repeats axis = new_array h (repeat_array (h ! a) repeats axis)"

definition np_reshape :: "'a heap \<Rightarrow> nat \<Rightarrow> int list \<Rightarrow> (pyerror + nat) \<times> 'a heap" where
  "np_reshape h a newshape = new_array h (reshape_array (h ! a) newshape)"

section \<open>Main rearrange implementation\<close>

text \<open>
  \<open>rearrange\<close> is one function in the source. Its body is cut here, at the source's own
  comment lines, into blocks that \<open>rearrange\<close> at the end of this section runs in the
  source's order:
  \<^item> \<open>validate_pattern\<close>: the three checks under \<open># Pattern validation\<close>;
  \<^item> \<open>process_ellipsis\<close>: \<open># Setup dimension mappings\<close> and \<open># Process ellipsis dimensions\<close>;
  \<^item> \<open>process_input_dims\<close>: the loop under \<open># Process input dimensions\<close>, with
    \<open>process_input_dim\<close> its body and \<open>process_composite\<close> the branch \<open>elif '(' in dim\<close>;
  \<^item> \<open>transposition\<close>: the \<open>if\<close>/\<open>else\<close> that sets \<open>current\<close>;
  \<^item> \<open>calculate_output_shape\<close>: the loop under \<open># Calculate output shape\<close>;
  \<^item> \<open>repeat_stage\<close>: the block under \<open>if repeat_indices:\<close>;
  \<^item> \<open>final_reshape\<close>: the \<open>try\<close>/\<open>except\<close> under \<open># Final reshape\<close>.
  An exception ends the call where it is raised: every block returns an error or its
  result, and the first error is the call's.
\<close>

subsection \<open>Pattern validation and ellipsis handling\<close>

text \<open>\<open>xs.index(x)\<close>, which the source only calls when \<open>x in xs\<close>.\<close>

fun index :: "'a list \<Rightarrow> 'a \<Rightarrow> nat" where
  "index [] x = 0"
| "index (y # ys) x = (if y = x then 0 else Suc (index ys x))"

text \<open>The slices \<open>xs[:i]\<close> and \<open>xs[i:]\<close>; a negative bound counts from the end.\<close>

definition slice_upto :: "'a list \<Rightarrow> int \<Rightarrow> 'a list" where
  "slice_upto xs i = (if i < 0 then take (nat (int (length xs) + i)) xs else take (nat i) xs)"

definition slice_from :: "'a list \<Rightarrow> int \<Rightarrow> 'a list" where
  "slice_from xs i = (if i < 0 then drop (nat (int (length xs) + i)) xs else drop (nat i) xs)"

definition validate_pattern :: "string list \<Rightarrow> string list \<Rightarrow> pyerror + unit" where
  "validate_pattern input_dims output_dims =
     (if list_ex (\<lambda>dim. CHR ''('' \<in> set dim \<and> \<not> endswith dim '')'') (input_dims @ output_dims)
      then Inl (EinopsError MismatchedParentheses)
      else if 1 < length (filter (\<lambda>dim. dim = ''...'') input_dims)
      then Inl (EinopsError MultipleEllipsisInput)
      else if (''...'' \<in> set input_dims) \<noteq> (''...'' \<in> set output_dims)
      then Inl (EinopsError EllipsisAsymmetry)
      else Inr ())"

definition ellipsis_name :: "nat \<Rightarrow> string" where
  "ellipsis_name i = ''_d'' @ str_nat i"

definition process_ellipsis ::
  "nat \<Rightarrow> string list \<Rightarrow> string list \<Rightarrow> pyerror + (string list \<times> string list \<times> nat)" where
  "process_ellipsis ndim input_dims output_dims =
     (let input_ellipsis_idx =
            (if ''...'' \<in> set input_dims then int (index input_dims ''...'') else - 1);
          output_ellipsis_idx =
            (if ''...'' \<in> set output_dims then int (index output_dims ''...'') else - 1)
      in if 0 \<le> input_ellipsis_idx then
           (let n_explicit = length (filter (\<lambda>d. d \<noteq> ''...'') input_dims);
                n_ellipsis = int ndim - int n_explicit
            in if n_ellipsis < 0 then Inl (EinopsError NotEnoughDimensions)
               else Inr (slice_upto input_dims input_ellipsis_idx
                           @ map ellipsis_name [0..<nat n_ellipsis]
                           @ slice_from input_dims (input_ellipsis_idx + 1),
                         slice_upto output_dims output_ellipsis_idx
                           @ map ellipsis_name [0..<nat n_ellipsis]
                           @ slice_from output_dims (output_ellipsis_idx + 1),
                         nat n_ellipsis))
         else Inr (input_dims, output_dims, 0))"

subsection \<open>Processing the input dimensions\<close>

text \<open>
  The four local variables the input loop updates. \<open>composite_dims\<close> is written and
  never read.
\<close>

record resolver_state =
  dim_sizes :: "string \<rightharpoonup> int"
  composite_dims :: "string \<rightharpoonup> string list"
  pos :: nat
  input_dim_to_pos :: "string \<rightharpoonup> nat"

definition init_state :: resolver_state where
  "init_state =
     \<lparr>dim_sizes = Map.empty, composite_dims = Map.empty, pos = 0, input_dim_to_pos = Map.empty\<rparr>"

text \<open>
  The loop over the components of a composite token: the product of the lengths the
  caller gave, the one component without a length, and the sizes bound so far.
\<close>

fun scan_components ::
  "axes_lengths \<Rightarrow> string \<Rightarrow> string list \<Rightarrow> int \<Rightarrow> string option \<Rightarrow> (string \<rightharpoonup> int)
     \<Rightarrow> pyerror + (int \<times> string option \<times> (string \<rightharpoonup> int))" where
  "scan_components axes_lengths dim [] known_size unknown sizes = Inr (known_size, unknown, sizes)"
| "scan_components axes_lengths dim (component # components) known_size unknown sizes =
     (case map_of axes_lengths component of
        Some v \<Rightarrow>
          scan_components axes_lengths dim components (known_size * v) unknown (sizes(component \<mapsto> v))
      | None \<Rightarrow>
          (case unknown of
             Some u \<Rightarrow> Inl (EinopsError MultipleUnknownDimensions)
           | None \<Rightarrow> scan_components axes_lengths dim components known_size (Some component) sizes))"

definition process_composite ::
  "nat list \<Rightarrow> axes_lengths \<Rightarrow> resolver_state \<Rightarrow> string \<Rightarrow> pyerror + resolver_state" where
  "process_composite shape axes_lengths st dim =
     (let components = split (strip_chars dim ''()'')
      in if length shape \<le> pos st then Inl IndexError
         else
           (let total_size = int (shape ! pos st)
            in case scan_components axes_lengths dim components 1 None (dim_sizes st) of
                 Inl e \<Rightarrow> Inl e
               | Inr (known_size, unknown, sizes) \<Rightarrow>
                   (case (case unknown of
                            Some u \<Rightarrow>
                              if known_size = 0 then Inl ZeroDivisionError
                              else if total_size mod known_size \<noteq> 0
                              then Inl (EinopsError NonDivisibleCompositeSize)
                              else Inr (sizes(u \<mapsto> total_size div known_size))
                          | None \<Rightarrow>
                              if total_size \<noteq> known_size
                              then Inl (EinopsError SizeMismatchComposite)
                              else Inr sizes) of
                      Inl e \<Rightarrow> Inl e
                    | Inr sizes' \<Rightarrow>
                        Inr (st\<lparr>dim_sizes := sizes',
                                composite_dims := (composite_dims st)(dim \<mapsto> components),
                                pos := pos st + 1,
                                input_dim_to_pos :=
                                  fold (\<lambda>component m. m(component \<mapsto> pos st)) components
                                    (input_dim_to_pos st)\<rparr>))))"

definition process_input_dim ::
  "nat list \<Rightarrow> axes_lengths \<Rightarrow> resolver_state \<Rightarrow> string \<Rightarrow> pyerror + resolver_state" where
  "process_input_dim shape axes_lengths st dim =
     (if startswith dim ''_d'' then
        (if length shape \<le> pos st then Inl IndexError
         else Inr (st\<lparr>dim_sizes := (dim_sizes st)(dim \<mapsto> int (shape ! pos st)),
                      input_dim_to_pos := (input_dim_to_pos st)(dim \<mapsto> pos st),
                      pos := pos st + 1\<rparr>))
      else if CHR ''('' \<in> set dim then process_composite shape axes_lengths st dim
      else
        (if length shape \<le> pos st then Inl (EinopsError NotEnoughDimensions)
         else
           (case map_of axes_lengths dim of
              Some v \<Rightarrow>
                if int (shape ! pos st) \<noteq> v \<and> shape ! pos st \<noteq> 1
                then Inl (EinopsError DimensionSizeMismatch)
                else Inr (st\<lparr>dim_sizes := (dim_sizes st)(dim \<mapsto> v),
                             input_dim_to_pos := (input_dim_to_pos st)(dim \<mapsto> pos st),
                             pos := pos st + 1\<rparr>)
            | None \<Rightarrow>
                Inr (st\<lparr>dim_sizes := (dim_sizes st)(dim \<mapsto> int (shape ! pos st)),
                        input_dim_to_pos := (input_dim_to_pos st)(dim \<mapsto> pos st),
                        pos := pos st + 1\<rparr>))))"

fun process_input_dims ::
  "nat list \<Rightarrow> axes_lengths \<Rightarrow> resolver_state \<Rightarrow> string list \<Rightarrow> pyerror + resolver_state" where
  "process_input_dims shape axes_lengths st [] = Inr st"
| "process_input_dims shape axes_lengths st (dim # dims) =
     (case process_input_dim shape axes_lengths st dim of
        Inl e \<Rightarrow> Inl e
      | Inr st' \<Rightarrow> process_input_dims shape axes_lengths st' dims)"

subsection \<open>Transposition\<close>

text \<open>
  The loop that builds \<open>permutation\<close> and \<open>used_dims\<close>, the test that guards it, and the
  transposition itself, which is skipped for a permutation of at most one entry.
\<close>

fun build_permutation ::
  "(string \<rightharpoonup> nat) \<Rightarrow> string list \<Rightarrow> nat list \<Rightarrow> string set \<Rightarrow> pyerror + nat list" where
  "build_permutation to_pos [] permutation used_dims = Inr permutation"
| "build_permutation to_pos (dim # dims) permutation used_dims =
     (if dim \<noteq> ''...'' \<and> dim \<notin> used_dims then
        (case to_pos dim of
           None \<Rightarrow> Inl KeyError
         | Some p \<Rightarrow> build_permutation to_pos dims (permutation @ [p]) (insert dim used_dims))
      else build_permutation to_pos dims permutation used_dims)"

definition fast_path :: "string list \<Rightarrow> string list \<Rightarrow> (string \<rightharpoonup> nat) \<Rightarrow> bool" where
  "fast_path full_input_dims full_output_dims to_pos \<longleftrightarrow>
     \<not> list_ex (\<lambda>d. CHR ''('' \<in> set d) (full_input_dims @ full_output_dims) \<and>
     \<not> list_ex (\<lambda>d. to_pos d = None) (filter (\<lambda>d. d \<noteq> ''...'') full_output_dims)"

definition transposition ::
  "'a heap \<Rightarrow> nat \<Rightarrow> string list \<Rightarrow> string list \<Rightarrow> (string \<rightharpoonup> nat)
     \<Rightarrow> (pyerror + nat) \<times> 'a heap" where
  "transposition h tensor full_input_dims full_output_dims to_pos =
     (if fast_path full_input_dims full_output_dims to_pos then
        (case build_permutation to_pos full_output_dims [] {} of
           Inl e \<Rightarrow> (Inl e, h)
         | Inr permutation \<Rightarrow>
             if 1 < length permutation then np_transpose h tensor permutation
             else (Inr tensor, h))
      else (Inr tensor, h))"

subsection \<open>Output shape\<close>

text \<open>\<open>d[k]\<close> on a dictionary: a missing key is a \<open>KeyError\<close>.\<close>

definition getitem :: "('k \<rightharpoonup> 'v) \<Rightarrow> 'k \<Rightarrow> pyerror + 'v" where
  "getitem d k = (case d k of None \<Rightarrow> Inl KeyError | Some v \<Rightarrow> Inr v)"

fun getitems :: "('k \<rightharpoonup> 'v) \<Rightarrow> 'k list \<Rightarrow> pyerror + 'v list" where
  "getitems d [] = Inr []"
| "getitems d (k # ks) =
     (case getitem d k of
        Inl e \<Rightarrow> Inl e
      | Inr v \<Rightarrow> (case getitems d ks of Inl e \<Rightarrow> Inl e | Inr vs \<Rightarrow> Inr (v # vs)))"

fun calculate_output_shape ::
  "axes_lengths \<Rightarrow> (string \<rightharpoonup> int) \<Rightarrow> nat \<Rightarrow> string list \<Rightarrow> int list \<Rightarrow> (nat \<times> int) list
     \<Rightarrow> pyerror + (int list \<times> (nat \<times> int) list)" where
  "calculate_output_shape axes_lengths sizes n_ellipsis [] final_shape repeat_indices =
     Inr (final_shape, repeat_indices)"
| "calculate_output_shape axes_lengths sizes n_ellipsis (dim # dims) final_shape repeat_indices =
     (if dim = ''...'' then
        (case getitems sizes (map ellipsis_name [0..<n_ellipsis]) of
           Inl e \<Rightarrow> Inl e
         | Inr vs \<Rightarrow>
             calculate_output_shape axes_lengths sizes n_ellipsis dims (final_shape @ vs)
               repeat_indices)
      else if CHR ''('' \<in> set dim then
        (case getitems sizes (split (strip_chars dim ''()'')) of
           Inl e \<Rightarrow> Inl e
         | Inr vs \<Rightarrow>
             calculate_output_shape axes_lengths sizes n_ellipsis dims
               (final_shape @ [prod_list vs]) repeat_indices)
      else
        (case map_of axes_lengths dim of
           Some v \<Rightarrow>
             if sizes dim = None \<or> sizes dim = Some 1 then
               calculate_output_shape axes_lengths sizes n_ellipsis dims (final_shape @ [v])
                 (repeat_indices @ [(length (final_shape @ [v]) - 1, v)])
             else
               (case getitem sizes dim of
                  Inl e \<Rightarrow> Inl e
                | Inr w \<Rightarrow>
                    calculate_output_shape axes_lengths sizes n_ellipsis dims (final_shape @ [w])
                      repeat_indices)
         | None \<Rightarrow>
             (case getitem sizes dim of
                Inl e \<Rightarrow> Inl e
              | Inr w \<Rightarrow>
                  calculate_output_shape axes_lengths sizes n_ellipsis dims (final_shape @ [w])
                    repeat_indices)))"

subsection \<open>Final operations\<close>

text \<open>
  \<open>sorted(repeat_indices, key=lambda x: -x[0])\<close> is a stable sort, as \<open>sort_key\<close> is.
  The source runs two loops over the sorted instructions: the first inserts an axis at
  every index, the second inserts one more axis at the index and repeats along it.
\<close>

definition sorted_repeat_indices :: "(nat \<times> int) list \<Rightarrow> (nat \<times> int) list" where
  "sorted_repeat_indices repeat_indices = sort_key (\<lambda>x. - int (fst x)) repeat_indices"

fun expand_loop :: "'a heap \<Rightarrow> nat \<Rightarrow> (nat \<times> int) list \<Rightarrow> (pyerror + nat) \<times> 'a heap" where
  "expand_loop h current [] = (Inr current, h)"
| "expand_loop h current ((idx, count) # rest) =
     (case np_expand_dims h current idx of
        (Inl e, h') \<Rightarrow> (Inl e, h')
      | (Inr current', h') \<Rightarrow> expand_loop h' current' rest)"

fun repeat_loop :: "'a heap \<Rightarrow> nat \<Rightarrow> (nat \<times> int) list \<Rightarrow> (pyerror + nat) \<times> 'a heap" where
  "repeat_loop h current [] = (Inr current, h)"
| "repeat_loop h current ((idx, count) # rest) =
     (case np_expand_dims h current idx of
        (Inl e, h') \<Rightarrow> (Inl e, h')
      | (Inr expanded, h') \<Rightarrow>
          (case np_repeat h' expanded count idx of
             (Inl e, h'') \<Rightarrow> (Inl e, h'')
           | (Inr current', h'') \<Rightarrow> repeat_loop h'' current' rest))"

definition repeat_stage :: "'a heap \<Rightarrow> nat \<Rightarrow> (nat \<times> int) list \<Rightarrow> (pyerror + nat) \<times> 'a heap" where
  "repeat_stage h current repeat_indices =
     (if repeat_indices \<noteq> [] then
        (case expand_loop h current (sorted_repeat_indices repeat_indices) of
           (Inl e, h') \<Rightarrow> (Inl e, h')
         | (Inr current', h') \<Rightarrow> repeat_loop h' current' (sorted_repeat_indices repeat_indices))
      else (Inr current, h))"

definition final_reshape :: "'a heap \<Rightarrow> nat \<Rightarrow> int list \<Rightarrow> (pyerror + nat) \<times> 'a heap" where
  "final_reshape h current final_shape =
     (case np_reshape h current final_shape of
        (Inl ValueError, h') \<Rightarrow> (Inl (EinopsError ReshapeIncompatible), h')
      | r \<Rightarrow> r)"

definition final_operations ::
  "'a heap \<Rightarrow> nat \<Rightarrow> (nat \<times> int) list \<Rightarrow> int list \<Rightarrow> (pyerror + nat) \<times> 'a heap" where
  "final_operations h current repeat_indices final_shape =
     (case repeat_stage h current repeat_indices of
        (Inl e, h') \<Rightarrow> (Inl e, h')
      | (Inr current', h') \<Rightarrow> final_reshape h' current' final_shape)"

subsection \<open>The function\<close>

definition rearrange ::
  "'a heap \<Rightarrow> nat \<Rightarrow> string \<Rightarrow> axes_lengths \<Rightarrow> (pyerror + nat) \<times> 'a heap" where
  "rearrange h tensor pattern axes_lengths =
     (case validate_axes_lengths pattern axes_lengths of
        Inl e \<Rightarrow> (Inl e, h)
      | Inr _ \<Rightarrow>
     (case parse_pattern pattern of
        Inl e \<Rightarrow> (Inl e, h)
      | Inr (input_dims, output_dims) \<Rightarrow>
     (case validate_pattern input_dims output_dims of
        Inl e \<Rightarrow> (Inl e, h)
      | Inr _ \<Rightarrow>
     (let shape = nd_shape (h ! tensor);
          ndim = length shape
      in case process_ellipsis ndim input_dims output_dims of
        Inl e \<Rightarrow> (Inl e, h)
      | Inr (full_input_dims, full_output_dims, n_ellipsis) \<Rightarrow>
     (case process_input_dims shape axes_lengths init_state full_input_dims of
        Inl e \<Rightarrow> (Inl e, h)
      | Inr st \<Rightarrow>
     (case transposition h tensor full_input_dims full_output_dims (input_dim_to_pos st) of
        (Inl e, h1) \<Rightarrow> (Inl e, h1)
      | (Inr current, h1) \<Rightarrow>
     (case calculate_output_shape axes_lengths (dim_sizes st) n_ellipsis full_output_dims [] [] of
        Inl e \<Rightarrow> (Inl e, h1)
      | Inr (final_shape, repeat_indices) \<Rightarrow>
     final_operations h1 current repeat_indices final_shape)))))))"

section \<open>Notions the properties are stated with\<close>

text \<open>The array a call returns, or the error it raises.\<close>

definition result_array :: "(pyerror + nat) \<times> 'a heap \<Rightarrow> pyerror + 'a ndarray" where
  "result_array r = (case r of (Inl e, h) \<Rightarrow> Inl e | (Inr a, h) \<Rightarrow> Inr (h ! a))"

text \<open>The element \<open>a[i0, i1, ...]\<close> of an array, for indices within its shape.\<close>

definition item :: "'a ndarray \<Rightarrow> nat list \<Rightarrow> 'a" where
  "item a idx = nd_data a ! sum_list (map (\<lambda>(i, stride). i * stride) (zip idx (strides (nd_shape a))))"

text \<open>
  The leaf axis names of an input token, as the three branches of the input loop read
  them: the token itself, or the members of a composite token.
\<close>

definition leaf_names :: "string \<Rightarrow> string list" where
  "leaf_names dim =
     (if startswith dim ''_d'' then [dim]
      else if CHR ''('' \<in> set dim then split (strip_chars dim ''()'')
      else [dim])"

text \<open>
  The reference executor of the specification's executor stage: for each repeat
  instruction, in descending order of the target index, insert one new axis of size 1
  at the target index and expand that axis to the target size; then reshape.
\<close>

fun reference_repeat_loop ::
  "'a heap \<Rightarrow> nat \<Rightarrow> (nat \<times> int) list \<Rightarrow> (pyerror + nat) \<times> 'a heap" where
  "reference_repeat_loop h current [] = (Inr current, h)"
| "reference_repeat_loop h current ((idx, count) # rest) =
     (case np_expand_dims h current idx of
        (Inl e, h') \<Rightarrow> (Inl e, h')
      | (Inr expanded, h') \<Rightarrow>
          (case np_repeat h' expanded count idx of
             (Inl e, h'') \<Rightarrow> (Inl e, h'')
           | (Inr current', h'') \<Rightarrow> reference_repeat_loop h'' current' rest))"

definition reference_final_operations ::
  "'a heap \<Rightarrow> nat \<Rightarrow> (nat \<times> int) list \<Rightarrow> int list \<Rightarrow> (pyerror + nat) \<times> 'a heap" where
  "reference_final_operations h current repeat_indices final_shape =
     (case reference_repeat_loop h current (sorted_repeat_indices repeat_indices) of
        (Inl e, h') \<Rightarrow> (Inl e, h')
      | (Inr current', h') \<Rightarrow> final_reshape h' current' final_shape)"

text \<open>The number a string of decimal digits denotes.\<close>

definition nat_of_str :: "string \<Rightarrow> nat" where
  "nat_of_str s = foldl (\<lambda>acc c. 10 * acc + index ''0123456789'' c) 0 s"

text \<open>
  The members of a composite token that the caller gave no length for, and the product
  of the lengths the caller gave for the others.
\<close>

fun unknown_members :: "axes_lengths \<Rightarrow> string list \<Rightarrow> string list" where
  "unknown_members axes_lengths [] = []"
| "unknown_members axes_lengths (c # cs) =
     (case map_of axes_lengths c of
        Some v \<Rightarrow> unknown_members axes_lengths cs
      | None \<Rightarrow> c # unknown_members axes_lengths cs)"

fun known_product :: "axes_lengths \<Rightarrow> string list \<Rightarrow> int" where
  "known_product axes_lengths [] = 1"
| "known_product axes_lengths (c # cs) =
     (case map_of axes_lengths c of
        Some v \<Rightarrow> v * known_product axes_lengths cs
      | None \<Rightarrow> known_product axes_lengths cs)"

section \<open>Evaluating a call on a concrete pattern\<close>

lemmas str_defs =
  split_on_def tokenize_def findall_def startswith_def endswith_def replace_def strip_def
  strip_chars_def isspace_def match_at_def paren_group_def split_def

lemmas parse_defs =
  parse_pattern_def validate_axes_lengths_def collect_identifiers_def validate_pattern_def
  process_ellipsis_def slice_upto_def slice_from_def ellipsis_name_def

lemmas resolve_defs =
  init_state_def process_input_dim_def process_composite_def fast_path_def transposition_def
  getitem_def

lemmas exec_defs =
  sorted_repeat_indices_def repeat_stage_def final_reshape_def final_operations_def
  np_reshape_def np_repeat_def np_expand_dims_def np_transpose_def new_array_def
  reshape_array_def repeat_array_def expand_dims_array_def transpose_array_def

lemmas rearrange_eval = rearrange_def str_defs parse_defs resolve_defs exec_defs

lemma all_less_3: "(\<forall>i<(3::nat). P i) \<longleftrightarrow> P 0 \<and> P 1 \<and> P 2"
  by (auto simp: eval_nat_numeral less_Suc_eq)

lemma all_less_4: "(\<forall>i<(4::nat). P i) \<longleftrightarrow> P 0 \<and> P 1 \<and> P 2 \<and> P 3"
  by (auto simp: eval_nat_numeral less_Suc_eq)

lemma all_less_5: "(\<forall>i<(5::nat). P i) \<longleftrightarrow> P 0 \<and> P 1 \<and> P 2 \<and> P 3 \<and> P 4"
  by (auto simp: eval_nat_numeral less_Suc_eq)

lemma length_15:
  assumes "length xs = 15"
  shows "\<exists>x0 x1 x2 x3 x4 x5 x6 x7 x8 x9 x10 x11 x12 x13 x14.
           xs = [x0, x1, x2, x3, x4, x5, x6, x7, x8, x9, x10, x11, x12, x13, x14]"
  using assms by (simp add: eval_nat_numeral length_Suc_conv) blast

section \<open>Widening a size-1 axis that is named on both sides\<close>

text \<open>
  Claim C1 says that an axis of actual size 1, named by a plain token on both sides and
  given a length \<open>L > 1\<close> by the caller, is widened: for \<open>x\<close> of shape \<open>(3,1,5)\<close>,
  \<open>rearrange(x, 'a b c -> a b c', b=4)\<close> has shape \<open>(3,4,5)\<close>. The input loop accepts
  the size-1 axis but stores the caller's 4 in \<open>dim_sizes\<close>, so the output loop, which
  asks for a bound size of 1, records no repeat; the final reshape of 15 elements to
  \<open>[3, 4, 5]\<close> then fails. For every array of shape \<open>(3,1,5)\<close> the call raises the
  reshape error.
\<close>

theorem widen_named_singleton_raises:
  assumes "tensor < length h" and "nd_shape (h ! tensor) = [3, 1, 5]"
  shows "fst (rearrange h tensor ''a b c -> a b c'' [(''b'', 4)])
           = Inl (EinopsError ReshapeIncompatible)"
  using assms(2) by (simp add: rearrange_eval)

theorem widen_named_singleton_raises_witness:
  "(0::nat) < length [\<lparr>nd_shape = [3, 1, 5], nd_data = [1, 2, 3, 4, 5, 6, 7, 8, 9, 10, 11, 12, 13, 14, 15 :: int]\<rparr>]
   \<and> fst (rearrange [\<lparr>nd_shape = [3, 1, 5], nd_data = [1, 2, 3, 4, 5, 6, 7, 8, 9, 10, 11, 12, 13, 14, 15 :: int]\<rparr>]
             0 ''a b c -> a b c'' [(''b'', 4)])
       = Inl (EinopsError ReshapeIncompatible)"
  using widen_named_singleton_raises
    [of 0 "[\<lparr>nd_shape = [3, 1, 5], nd_data = [1, 2, 3, 4, 5, 6, 7, 8, 9, 10, 11, 12, 13, 14, 15 :: int]\<rparr>]"]
  by simp

section \<open>Running out of input axes\<close>

text \<open>
  Claim C3 says that whenever the input shape is exhausted before every input token
  has consumed an axis, the call fails with the \<open>Not enough dimensions\<close> error, whatever
  kind the remaining token has. Only the branch for plain names tests the cursor; the
  branch for composite tokens reads \<open>shape[pos]\<close> unguarded. For every array of rank 1,
  \<open>rearrange(x, 'a (b c) -> a b c', b=1)\<close> raises \<open>IndexError\<close>.
\<close>

theorem composite_past_rank_raises_IndexError:
  assumes "tensor < length h" and "nd_shape (h ! tensor) = [n]"
  shows "rearrange h tensor ''a (b c) -> a b c'' [(''b'', 1)] = (Inl IndexError, h)"
  using assms(2) by (simp add: rearrange_eval)

theorem composite_past_rank_raises_IndexError_witness:
  "(0::nat) < length [\<lparr>nd_shape = [3], nd_data = [1, 2, 3 :: int]\<rparr>]
   \<and> rearrange [\<lparr>nd_shape = [3], nd_data = [1, 2, 3 :: int]\<rparr>] 0 ''a (b c) -> a b c'' [(''b'', 1)]
       = (Inl IndexError, [\<lparr>nd_shape = [3], nd_data = [1, 2, 3 :: int]\<rparr>])"
  using composite_past_rank_raises_IndexError
    [of 0 "[\<lparr>nd_shape = [3], nd_data = [1, 2, 3 :: int]\<rparr>]" 3]
  by simp

section \<open>Repeating along a new axis\<close>

lemma repeat_new_axis_eval:
  assumes "h ! tensor =
    \<lparr>nd_shape = [3, 1, 5],
     nd_data = [x0, x1, x2, x3, x4, x5, x6, x7, x8, x9, x10, x11, x12, x13, x14]\<rparr>"
  shows "result_array (rearrange h tensor ''a 1 c -> a b c'' [(''b'', 4)]) =
    Inr \<lparr>nd_shape = [3, 4, 5],
         nd_data =
           [x0, x1, x2, x3, x4, x0, x1, x2, x3, x4, x0, x1, x2, x3, x4, x0, x1, x2, x3, x4,
            x5, x6, x7, x8, x9, x5, x6, x7, x8, x9, x5, x6, x7, x8, x9, x5, x6, x7, x8, x9,
            x10, x11, x12, x13, x14, x10, x11, x12, x13, x14, x10, x11, x12, x13, x14,
            x10, x11, x12, x13, x14]\<rparr>"
  using assms
  by (simp add: rearrange_eval result_array_def nth_append upt_rec eval_nat_numeral)

text \<open>
  Claim C5: for every array \<open>x\<close> of shape \<open>(3,1,5)\<close>, \<open>rearrange(x, 'a 1 c -> a b c', b=4)\<close>
  returns an array of shape \<open>(3,4,5)\<close> whose slice at every index \<open>j\<close> of the new axis is
  the singleton slice of \<open>x\<close>: element \<open>[i, j, k]\<close> of the result is element \<open>[i, 0, k]\<close> of
  \<open>x\<close>.
\<close>

theorem repeat_new_axis_copies_slice:
  assumes "tensor < length h" and "nd_shape (h ! tensor) = [3, 1, 5]" and "wf_array (h ! tensor)"
  shows "\<exists>y. result_array (rearrange h tensor ''a 1 c -> a b c'' [(''b'', 4)]) = Inr y \<and>
           nd_shape y = [3, 4, 5] \<and> wf_array y \<and>
           (\<forall>i<3. \<forall>j<4. \<forall>k<5. item y [i, j, k] = item (h ! tensor) [i, 0, k])"
proof -
  from assms have "length (nd_data (h ! tensor)) = 15"
    by (simp add: wf_array_def)
  from length_15 [OF this] obtain x0 x1 x2 x3 x4 x5 x6 x7 x8 x9 x10 x11 x12 x13 x14
    where "nd_data (h ! tensor) = [x0, x1, x2, x3, x4, x5, x6, x7, x8, x9, x10, x11, x12, x13, x14]"
    by blast
  with assms have x: "h ! tensor =
      \<lparr>nd_shape = [3, 1, 5],
       nd_data = [x0, x1, x2, x3, x4, x5, x6, x7, x8, x9, x10, x11, x12, x13, x14]\<rparr>"
    by (cases "h ! tensor") simp
  show ?thesis
    unfolding repeat_new_axis_eval [OF x]
    by (simp add: x item_def wf_array_def all_less_3 all_less_4 all_less_5)
qed

theorem repeat_new_axis_copies_slice_witness:
  "(0::nat) < length [\<lparr>nd_shape = [3, 1, 5], nd_data = [1, 2, 3, 4, 5, 6, 7, 8, 9, 10, 11, 12, 13, 14, 15 :: int]\<rparr>]
   \<and> wf_array \<lparr>nd_shape = [3, 1, 5], nd_data = [1, 2, 3, 4, 5, 6, 7, 8, 9, 10, 11, 12, 13, 14, 15 :: int]\<rparr>
   \<and> (\<exists>y. result_array (rearrange
               [\<lparr>nd_shape = [3, 1, 5], nd_data = [1, 2, 3, 4, 5, 6, 7, 8, 9, 10, 11, 12, 13, 14, 15 :: int]\<rparr>]
               0 ''a 1 c -> a b c'' [(''b'', 4)]) = Inr y \<and>
           nd_shape y = [3, 4, 5] \<and> wf_array y \<and>
           (\<forall>i<3. \<forall>j<4. \<forall>k<5. item y [i, j, k] =
              item \<lparr>nd_shape = [3, 1, 5], nd_data = [1, 2, 3, 4, 5, 6, 7, 8, 9, 10, 11, 12, 13, 14, 15 :: int]\<rparr> [i, 0, k]))"
proof -
  let ?x = "\<lparr>nd_shape = [3, 1, 5], nd_data = [1, 2, 3, 4, 5, 6, 7, 8, 9, 10, 11, 12, 13, 14, 15 :: int]\<rparr>"
  have 1: "(0::nat) < length [?x]" by simp
  have 2: "nd_shape ([?x] ! 0) = [3, 1, 5]" by simp
  have 3: "wf_array ([?x] ! 0)" by (simp add: wf_array_def)
  from repeat_new_axis_copies_slice [OF 1 2 3] 1 3 show ?thesis by simp
qed

section \<open>Splitting an axis and merging it again\<close>

lemma split_axis_eval:
  assumes "nd_shape (h ! tensor) = [12, 10]"
  shows "rearrange h tensor ''(h w) c -> h w c'' [(''h'', 3)]
           = (Inr (length h), h @ [(h ! tensor)\<lparr>nd_shape := [3, 4, 10]\<rparr>])"
  using assms by (simp add: rearrange_eval)

lemma merge_axes_eval:
  assumes "nd_shape (h ! tensor) = [3, 4, 10]"
  shows "rearrange h tensor ''h w c -> (h w) c'' []
           = (Inr (length h), h @ [(h ! tensor)\<lparr>nd_shape := [12, 10]\<rparr>])"
  using assms by (simp add: rearrange_eval)

text \<open>
  Claim C7: for every array \<open>x\<close> of shape \<open>(12, 10)\<close>,
  \<open>rearrange(rearrange(x, '(h w) c -> h w c', h=3), 'h w c -> (h w) c')\<close> equals \<open>x\<close> in
  shape and in every element: both calls succeed, and the array the second returns is
  \<open>x\<close>.
\<close>

theorem split_merge_inverse:
  assumes "tensor < length h" and "nd_shape (h ! tensor) = [12, 10]"
  shows "\<exists>y h1 z h2.
           rearrange h tensor ''(h w) c -> h w c'' [(''h'', 3)] = (Inr y, h1) \<and>
           rearrange h1 y ''h w c -> (h w) c'' [] = (Inr z, h2) \<and>
           h2 ! z = h ! tensor"
proof -
  let ?h1 = "h @ [(h ! tensor)\<lparr>nd_shape := [3, 4, 10]\<rparr>]"
  have first: "rearrange h tensor ''(h w) c -> h w c'' [(''h'', 3)] = (Inr (length h), ?h1)"
    by (rule split_axis_eval [OF assms(2)])
  have "nd_shape (?h1 ! length h) = [3, 4, 10]"
    by simp
  from merge_axes_eval [OF this]
  have second: "rearrange ?h1 (length h) ''h w c -> (h w) c'' []
                  = (Inr (length ?h1), ?h1 @ [(?h1 ! length h)\<lparr>nd_shape := [12, 10]\<rparr>])" .
  have "(?h1 @ [(?h1 ! length h)\<lparr>nd_shape := [12, 10]\<rparr>]) ! length ?h1 = h ! tensor"
    using assms(2) by (simp del: append_assoc add: nth_append)
  with first second show ?thesis by blast
qed

theorem split_merge_inverse_witness:
  "(0::nat) < length [\<lparr>nd_shape = [12, 10], nd_data = replicate 120 (7::int)\<rparr>]
   \<and> (\<exists>y h1 z h2.
         rearrange [\<lparr>nd_shape = [12, 10], nd_data = replicate 120 (7::int)\<rparr>] 0
           ''(h w) c -> h w c'' [(''h'', 3)] = (Inr y, h1) \<and>
         rearrange h1 y ''h w c -> (h w) c'' [] = (Inr z, h2) \<and>
         h2 ! z = \<lparr>nd_shape = [12, 10], nd_data = replicate 120 (7::int)\<rparr>)"
  using split_merge_inverse [of 0 "[\<lparr>nd_shape = [12, 10], nd_data = replicate 120 (7::int)\<rparr>]"]
  by simp

section \<open>The caller's array is left as it is\<close>

lemma new_array_prefix: "prefix h (snd (new_array h r))"
  by (cases r) (simp_all add: new_array_def)

lemma np_transpose_prefix: "prefix h (snd (np_transpose h a axes))"
  by (simp add: np_transpose_def new_array_prefix)

lemma np_expand_dims_prefix: "prefix h (snd (np_expand_dims h a axis))"
  by (simp add: np_expand_dims_def new_array_prefix)

lemma np_repeat_prefix: "prefix h (snd (np_repeat h a repeats axis))"
  by (simp add: np_repeat_def new_array_prefix)

lemma np_reshape_prefix: "prefix h (snd (np_reshape h a newshape))"
  by (simp add: np_reshape_def new_array_prefix)

lemma expand_loop_prefix: "prefix h (snd (expand_loop h current ris))"
proof (induction ris arbitrary: h current)
  case Nil
  show ?case by simp
next
  case (Cons ri ris)
  obtain idx count where ri: "ri = (idx, count)" by (cases ri)
  obtain r h' where step: "np_expand_dims h current idx = (r, h')"
    by (cases "np_expand_dims h current idx")
  have grow: "prefix h h'"
    using np_expand_dims_prefix [of h current idx] by (simp add: step)
  show ?case
  proof (cases r)
    case (Inl e)
    with ri step grow show ?thesis by simp
  next
    case (Inr current')
    have "prefix h' (snd (expand_loop h' current' ris))" by (rule Cons.IH)
    with grow have "prefix h (snd (expand_loop h' current' ris))" by (rule prefix_order.trans)
    with ri step Inr show ?thesis by simp
  qed
qed

lemma repeat_loop_prefix: "prefix h (snd (repeat_loop h current ris))"
proof (induction ris arbitrary: h current)
  case Nil
  show ?case by simp
next
  case (Cons ri ris)
  obtain idx count where ri: "ri = (idx, count)" by (cases ri)
  obtain r h' where step: "np_expand_dims h current idx = (r, h')"
    by (cases "np_expand_dims h current idx")
  have grow: "prefix h h'"
    using np_expand_dims_prefix [of h current idx] by (simp add: step)
  show ?case
  proof (cases r)
    case (Inl e)
    with ri step grow show ?thesis by simp
  next
    case (Inr expanded)
    obtain r2 h'' where step2: "np_repeat h' expanded count idx = (r2, h'')"
      by (cases "np_repeat h' expanded count idx")
    have "prefix h' h''"
      using np_repeat_prefix [of h' expanded count idx] by (simp add: step2)
    with grow have grow2: "prefix h h''" by (rule prefix_order.trans)
    show ?thesis
    proof (cases r2)
      case (Inl e)
      with ri step step2 Inr grow2 show ?thesis by simp
    next
      case (Inr current')
      have "prefix h'' (snd (repeat_loop h'' current' ris))" by (rule Cons.IH)
      with grow2 have "prefix h (snd (repeat_loop h'' current' ris))"
        by (rule prefix_order.trans)
      with ri step step2 \<open>r = Inr expanded\<close> Inr show ?thesis by simp
    qed
  qed
qed

lemma repeat_stage_prefix: "prefix h (snd (repeat_stage h current ris))"
proof (cases "ris = []")
  case True
  then show ?thesis by (simp add: repeat_stage_def)
next
  case False
  obtain r h' where step: "expand_loop h current (sorted_repeat_indices ris) = (r, h')"
    by (cases "expand_loop h current (sorted_repeat_indices ris)")
  have grow: "prefix h h'"
    using expand_loop_prefix [of h current "sorted_repeat_indices ris"] by (simp add: step)
  show ?thesis
  proof (cases r)
    case (Inl e)
    with False step grow show ?thesis by (simp add: repeat_stage_def)
  next
    case (Inr current')
    have "prefix h' (snd (repeat_loop h' current' (sorted_repeat_indices ris)))"
      by (rule repeat_loop_prefix)
    with grow have "prefix h (snd (repeat_loop h' current' (sorted_repeat_indices ris)))"
      by (rule prefix_order.trans)
    with False step Inr show ?thesis by (simp add: repeat_stage_def)
  qed
qed

lemma final_reshape_prefix: "prefix h (snd (final_reshape h current final_shape))"
  using np_reshape_prefix [of h current final_shape]
  by (auto simp: final_reshape_def split: prod.splits sum.splits pyerror.splits)

lemma final_operations_prefix:
  "prefix h (snd (final_operations h current ris final_shape))"
proof -
  obtain r h' where step: "repeat_stage h current ris = (r, h')"
    by (cases "repeat_stage h current ris")
  have grow: "prefix h h'"
    using repeat_stage_prefix [of h current ris] by (simp add: step)
  show ?thesis
  proof (cases r)
    case (Inl e)
    with step grow show ?thesis by (simp add: final_operations_def)
  next
    case (Inr current')
    have "prefix h' (snd (final_reshape h' current' final_shape))"
      by (rule final_reshape_prefix)
    with grow have "prefix h (snd (final_reshape h' current' final_shape))"
      by (rule prefix_order.trans)
    with step Inr show ?thesis by (simp add: final_operations_def)
  qed
qed

lemma transposition_prefix: "prefix h (snd (transposition h tensor ins outs to_pos))"
  using np_transpose_prefix [of h tensor]
  by (auto simp: transposition_def split: sum.splits)

lemma rearrange_prefix: "prefix h (snd (rearrange h tensor pattern axes_lengths))"
proof -
  have tail: "prefix h (snd (case transposition h tensor ins outs to_pos of
        (Inl e, h1) \<Rightarrow> (Inl e, h1)
      | (Inr current, h1) \<Rightarrow>
          (case shp of
             Inl e \<Rightarrow> (Inl e, h1)
           | Inr (final_shape, repeat_indices) \<Rightarrow>
               final_operations h1 current repeat_indices final_shape)))"
    for ins outs to_pos and shp :: "pyerror + (int list \<times> (nat \<times> int) list)"
  proof -
    obtain r h1 where step: "transposition h tensor ins outs to_pos = (r, h1)"
      by (cases "transposition h tensor ins outs to_pos")
    have grow: "prefix h h1"
      using transposition_prefix [of h tensor ins outs to_pos] by (simp add: step)
    show ?thesis
    proof (cases r)
      case (Inl e)
      with step grow show ?thesis by simp
    next
      case (Inr current)
      show ?thesis
      proof (cases shp)
        case (Inl e)
        with step grow \<open>r = Inr current\<close> show ?thesis by simp
      next
        case (Inr p)
        obtain final_shape repeat_indices where p: "p = (final_shape, repeat_indices)"
          by (cases p)
        have "prefix h1 (snd (final_operations h1 current repeat_indices final_shape))"
          by (rule final_operations_prefix)
        with grow have "prefix h (snd (final_operations h1 current repeat_indices final_shape))"
          by (rule prefix_order.trans)
        with step \<open>r = Inr current\<close> Inr p show ?thesis by simp
      qed
    qed
  qed
  show ?thesis
    unfolding rearrange_def Let_def
    by (auto split: sum.splits prod.splits simp: tail simp del: split_paired_All split_paired_Ex)
qed

text \<open>
  Claim C9: for every call to \<open>rearrange\<close>, whether it returns an array or raises, the
  caller's input array is unchanged after the call, in shape and in every element. In
  the store after the call every array object that existed before it, the input among
  them, is what it was; the call only adds objects.
\<close>

theorem rearrange_leaves_input_unchanged:
  assumes "tensor < length h"
  shows "take (length h) (snd (rearrange h tensor pattern axes_lengths)) = h \<and>
         snd (rearrange h tensor pattern axes_lengths) ! tensor = h ! tensor"
  using assms rearrange_prefix [of h tensor pattern axes_lengths]
  by (auto simp: prefix_def nth_append)

theorem rearrange_leaves_input_unchanged_witness:
  "(0::nat) < length [\<lparr>nd_shape = [2, 3], nd_data = [1, 2, 3, 4, 5, 6 :: int]\<rparr>]
   \<and> take (length [\<lparr>nd_shape = [2, 3], nd_data = [1, 2, 3, 4, 5, 6 :: int]\<rparr>])
        (snd (rearrange [\<lparr>nd_shape = [2, 3], nd_data = [1, 2, 3, 4, 5, 6 :: int]\<rparr>] 0 ''h w -> w h'' []))
       = [\<lparr>nd_shape = [2, 3], nd_data = [1, 2, 3, 4, 5, 6 :: int]\<rparr>]
   \<and> snd (rearrange [\<lparr>nd_shape = [2, 3], nd_data = [1, 2, 3, 4, 5, 6 :: int]\<rparr>] 0 ''h w -> w h'' []) ! 0
       = \<lparr>nd_shape = [2, 3], nd_data = [1, 2, 3, 4, 5, 6 :: int]\<rparr>"
  using rearrange_leaves_input_unchanged
    [of 0 "[\<lparr>nd_shape = [2, 3], nd_data = [1, 2, 3, 4, 5, 6 :: int]\<rparr>]" "''h w -> w h''" "[]"]
  by simp

section \<open>The input loop on a concatenation\<close>

lemma process_input_dims_append:
  "process_input_dims shape al st (xs @ ys) =
     (case process_input_dims shape al st xs of
        Inl e \<Rightarrow> Inl e
      | Inr st' \<Rightarrow> process_input_dims shape al st' ys)"
  by (induction xs arbitrary: st) (auto split: sum.splits)

section \<open>The position a name is bound to\<close>

lemma fold_upd_apply:
  "fold (\<lambda>component m. m(component \<mapsto> p)) components m0 n
     = (if n \<in> set components then Some p else m0 n)"
  by (induction components arbitrary: m0) auto

lemma process_input_dim_position:
  assumes "process_input_dim shape al st dim = Inr st'"
  shows "pos st' = pos st + 1"
    and "input_dim_to_pos st' n
           = (if n \<in> set (leaf_names dim) then Some (pos st) else input_dim_to_pos st n)"
  using assms
  by (auto simp: process_input_dim_def process_composite_def leaf_names_def fold_upd_apply Let_def
           split: if_splits option.splits sum.splits prod.splits)

lemma process_input_dims_positions:
  assumes "process_input_dims shape al st dims = Inr st'"
  shows "pos st' = pos st + length dims
    \<and> ((\<forall>j<length dims. n \<notin> set (leaf_names (dims ! j)))
          \<longrightarrow> input_dim_to_pos st' n = input_dim_to_pos st n)
    \<and> (\<forall>i. i < length dims \<and> n \<in> set (leaf_names (dims ! i)) \<and>
            (\<forall>j. i < j \<and> j < length dims \<longrightarrow> n \<notin> set (leaf_names (dims ! j)))
          \<longrightarrow> input_dim_to_pos st' n = Some (pos st + i))"
  using assms
proof (induction dims arbitrary: st)
  case Nil
  then show ?case by simp
next
  case (Cons d ds)
  from Cons.prems obtain st1 where
    step: "process_input_dim shape al st d = Inr st1" and
    rest: "process_input_dims shape al st1 ds = Inr st'"
    by (auto split: sum.splits)
  note p1 = process_input_dim_position [OF step]
  note ih = Cons.IH [OF rest]
  have len: "pos st' = pos st + length (d # ds)"
    using ih p1(1) by simp
  have untouched: "input_dim_to_pos st' n = input_dim_to_pos st n"
    if none: "\<forall>j<length (d # ds). n \<notin> set (leaf_names ((d # ds) ! j))"
  proof -
    from none have "n \<notin> set (leaf_names d)" by auto
    moreover from none have "\<forall>j<length ds. n \<notin> set (leaf_names (ds ! j))" by auto
    ultimately show ?thesis using ih p1(2) [of n] by simp
  qed
  have last_one: "input_dim_to_pos st' n = Some (pos st + i)"
    if i: "i < length (d # ds)" and here: "n \<in> set (leaf_names ((d # ds) ! i))"
      and later: "\<forall>j. i < j \<and> j < length (d # ds) \<longrightarrow> n \<notin> set (leaf_names ((d # ds) ! j))"
    for i
  proof (cases i)
    case 0
    have "\<forall>j<length ds. n \<notin> set (leaf_names (ds ! j))"
    proof (intro allI impI)
      fix j assume "j < length ds"
      with 0 have "i < Suc j \<and> Suc j < length (d # ds)" by simp
      with later have "n \<notin> set (leaf_names ((d # ds) ! Suc j))" by blast
      then show "n \<notin> set (leaf_names (ds ! j))" by simp
    qed
    with ih have "input_dim_to_pos st' n = input_dim_to_pos st1 n" by simp
    with here 0 p1(2) [of n] show ?thesis by simp
  next
    case (Suc i')
    from i Suc have "i' < length ds" by simp
    moreover from here Suc have "n \<in> set (leaf_names (ds ! i'))" by simp
    moreover have "\<forall>j. i' < j \<and> j < length ds \<longrightarrow> n \<notin> set (leaf_names (ds ! j))"
    proof (intro allI impI)
      fix j assume "i' < j \<and> j < length ds"
      with Suc have "i < Suc j \<and> Suc j < length (d # ds)" by simp
      with later have "n \<notin> set (leaf_names ((d # ds) ! Suc j))" by blast
      then show "n \<notin> set (leaf_names (ds ! j))" by simp
    qed
    ultimately have "input_dim_to_pos st' n = Some (pos st1 + i')" using ih by blast
    with p1(1) Suc show ?thesis by simp
  qed
  from len untouched last_one show ?case by blast
qed

lemma build_permutation_extends:
  assumes "build_permutation m dims perm used = Inr r"
  shows "\<exists>ext. r = perm @ ext"
  using assms
proof (induction dims arbitrary: perm used)
  case Nil
  then show ?case by simp
next
  case (Cons d ds)
  show ?case
  proof (cases "d \<noteq> ''...'' \<and> d \<notin> used")
    case True
    with Cons.prems obtain p where p: "m d = Some p"
      and rest: "build_permutation m ds (perm @ [p]) (insert d used) = Inr r"
      by (auto split: option.splits)
    from Cons.IH [OF rest] show ?thesis by auto
  next
    case False
    with Cons.prems have "build_permutation m ds perm used = Inr r" by auto
    from Cons.IH [OF this] show ?thesis .
  qed
qed

lemma build_permutation_entry:
  assumes "build_permutation m (pre @ n # post) perm used = Inr r"
    and "n \<noteq> ''...''" and "n \<notin> set pre" and "n \<notin> used"
  shows "m n = Some (r ! (length perm + card (set pre - {''...''} - used)))"
  using assms
proof (induction pre arbitrary: perm used)
  case Nil
  then obtain p where p: "m n = Some p"
    and rest: "build_permutation m post (perm @ [p]) (insert n used) = Inr r"
    by (auto split: option.splits)
  from build_permutation_extends [OF rest] obtain ext where "r = (perm @ [p]) @ ext" by blast
  then have "r ! length perm = p" by simp
  with p show ?case by simp
next
  case (Cons a pre)
  from Cons.prems have na: "n \<noteq> a" and npre: "n \<notin> set pre" by auto
  show ?case
  proof (cases "a \<noteq> ''...'' \<and> a \<notin> used")
    case True
    with Cons.prems obtain q where q: "m a = Some q"
      and rest: "build_permutation m (pre @ n # post) (perm @ [q]) (insert a used) = Inr r"
      by (auto split: option.splits)
    from na Cons.prems have "n \<notin> insert a used" by simp
    from Cons.IH [OF rest Cons.prems(2) npre this]
    have entry: "m n = Some (r ! (length (perm @ [q]) + card (set pre - {''...''} - insert a used)))" .
    have "set (a # pre) - {''...''} - used = insert a (set pre - {''...''} - insert a used)"
      using True by auto
    moreover have "a \<notin> set pre - {''...''} - insert a used" by simp
    ultimately have "card (set (a # pre) - {''...''} - used)
                       = Suc (card (set pre - {''...''} - insert a used))"
      by (simp del: set_simps)
    with entry show ?thesis by simp
  next
    case False
    with Cons.prems have rest: "build_permutation m (pre @ n # post) perm used = Inr r" by auto
    from Cons.IH [OF rest Cons.prems(2) npre Cons.prems(4)]
    have entry: "m n = Some (r ! (length perm + card (set pre - {''...''} - used)))" .
    have "set (a # pre) - {''...''} - used = set pre - {''...''} - used"
      using False by auto
    with entry show ?thesis by simp
  qed
qed

text \<open>
  Claim C2 says that for a leaf axis name occurring more than once on the input side the
  position mapping holds the position of the name's first occurrence. Every binding
  overwrites the one before, so what holds is the amended claim: after the input loop
  has accepted the (ellipsis-expanded) input tokens, the position mapping of a leaf
  name holds the position of its last occurrence among them, and the entry of the
  fast-path permutation built for the name, where the output names it first, is that
  last position.
\<close>

theorem input_position_is_last_occurrence:
  assumes resolved: "process_input_dims shape axes_lengths init_state full_input_dims = Inr st"
    and i: "i < length full_input_dims"
    and here: "n \<in> set (leaf_names (full_input_dims ! i))"
    and later: "\<forall>j. i < j \<and> j < length full_input_dims \<longrightarrow> n \<notin> set (leaf_names (full_input_dims ! j))"
  shows "input_dim_to_pos st n = Some i \<and>
         (\<forall>pre post permutation.
            n \<noteq> ''...'' \<and> n \<notin> set pre \<and>
            build_permutation (input_dim_to_pos st) (pre @ n # post) [] {} = Inr permutation
            \<longrightarrow> permutation ! card (set pre - {''...''}) = i)"
proof -
  from process_input_dims_positions [OF resolved, of n] i here later
  have at: "input_dim_to_pos st n = Some (pos init_state + i)" by blast
  then have at': "input_dim_to_pos st n = Some i" by (simp add: init_state_def)
  have "permutation ! card (set pre - {''...''}) = i"
    if "n \<noteq> ''...''" "n \<notin> set pre"
       "build_permutation (input_dim_to_pos st) (pre @ n # post) [] {} = Inr permutation"
    for pre post permutation
  proof -
    from build_permutation_entry [OF that(3) that(1) that(2)]
    have "input_dim_to_pos st n = Some (permutation ! card (set pre - {''...''}))" by simp
    with at' show ?thesis by simp
  qed
  with at' show ?thesis by blast
qed

text \<open>
  The pattern \<open>a a -> a\<close> on an array of shape \<open>(2, 3)\<close>: the first occurrence of \<open>a\<close>
  is at position 0, the mapping holds 1, and so does the permutation.
\<close>

theorem input_position_first_occurrence_counterexample:
  "parse_pattern ''a a -> a'' = Inr ([''a'', ''a''], [''a''])
   \<and> index [''a'', ''a''] ''a'' = 0
   \<and> process_input_dims [2, 3] [] init_state [''a'', ''a'']
       = Inr \<lparr>dim_sizes = [''a'' \<mapsto> 3], composite_dims = Map.empty, pos = 2,
              input_dim_to_pos = [''a'' \<mapsto> 1]\<rparr>
   \<and> [''a'' \<mapsto> 1 :: nat] ''a'' \<noteq> Some (index [''a'', ''a''] ''a'')
   \<and> build_permutation [''a'' \<mapsto> 1] [''a''] [] {} = Inr [1]"
  by (simp add: parse_pattern_def str_defs init_state_def process_input_dim_def)

theorem input_position_is_last_occurrence_witness:
  "process_input_dims [2, 3] [] init_state [''a'', ''a'']
     = Inr \<lparr>dim_sizes = [''a'' \<mapsto> 3], composite_dims = Map.empty, pos = 2,
            input_dim_to_pos = [''a'' \<mapsto> 1]\<rparr>
   \<and> (1::nat) < length [''a'', ''a'']
   \<and> ''a'' \<in> set (leaf_names ([''a'', ''a''] ! 1))
   \<and> input_dim_to_pos \<lparr>dim_sizes = [''a'' \<mapsto> 3], composite_dims = Map.empty, pos = 2,
                         input_dim_to_pos = [''a'' \<mapsto> 1]\<rparr> ''a'' = Some 1"
proof -
  let ?st = "\<lparr>dim_sizes = [''a'' \<mapsto> (3::int)], composite_dims = Map.empty, pos = 2,
              input_dim_to_pos = [''a'' \<mapsto> (1::nat)]\<rparr>"
  have resolved: "process_input_dims [2, 3] [] init_state [''a'', ''a''] = Inr ?st"
    by (simp add: init_state_def process_input_dim_def startswith_def)
  have i: "(1::nat) < length [''a'', ''a'']" by simp
  have here: "''a'' \<in> set (leaf_names ([''a'', ''a''] ! 1))"
    by (simp add: leaf_names_def startswith_def)
  have later: "\<forall>j. 1 < j \<and> j < length [''a'', ''a''] \<longrightarrow> ''a'' \<notin> set (leaf_names ([''a'', ''a''] ! j))"
    by auto
  from input_position_is_last_occurrence [OF resolved i here later]
  have "input_dim_to_pos ?st ''a'' = Some 1" by blast
  with resolved i here show ?thesis by blast
qed

section \<open>Composite tokens\<close>

lemma scan_components_result:
  "scan_components al dim comps k uo sizes =
     Inl (EinopsError MultipleUnknownDimensions) \<and>
       2 \<le> length (unknown_members al comps) + (case uo of None \<Rightarrow> 0 | Some u \<Rightarrow> 1)
   \<or> (\<exists>sizes'. scan_components al dim comps k uo sizes =
         Inr (k * known_product al comps,
              (case unknown_members al comps of [] \<Rightarrow> uo | u # us \<Rightarrow> Some u), sizes') \<and>
       length (unknown_members al comps) + (case uo of None \<Rightarrow> 0 | Some u \<Rightarrow> 1) < 2)"
proof (induction comps arbitrary: k uo sizes)
  case Nil
  show ?case by (simp split: option.splits)
next
  case (Cons c comps)
  show ?case
  proof (cases "map_of al c")
    case (Some v)
    have eq: "scan_components al dim (c # comps) k uo sizes
                = scan_components al dim comps (k * v) uo (sizes(c \<mapsto> v))"
      using Some by simp
    have um: "unknown_members al (c # comps) = unknown_members al comps"
      using Some by simp
    have kp: "k * known_product al (c # comps) = (k * v) * known_product al comps"
      using Some by (simp add: mult.assoc)
    show ?thesis
      unfolding eq um kp by (rule Cons.IH)
  next
    case None
    show ?thesis
    proof (cases uo)
      case (Some u)
      with None show ?thesis by simp
    next
      case uo: None
      from Cons.IH [of k "Some c" sizes] None uo show ?thesis
        by (auto split: list.splits)
    qed
  qed
qed

lemma known_product_nonzero:
  assumes "\<forall>v \<in> snd ` set al. v \<noteq> 0"
  shows "known_product al comps \<noteq> 0"
proof (induction comps)
  case Nil
  show ?case by simp
next
  case (Cons c comps)
  show ?case
  proof (cases "map_of al c")
    case None
    with Cons show ?thesis by simp
  next
    case (Some v)
    then have "(c, v) \<in> set al" by (rule map_of_SomeD)
    then have "v \<in> snd ` set al" by force
    with assms have "v \<noteq> 0" by blast
    with Cons Some show ?thesis by simp
  qed
qed

lemma composite_branch:
  assumes "startswith dim ''(''"
  shows "process_input_dim shape al st dim = process_composite shape al st dim"
proof -
  from assms obtain rest where "dim = CHR ''('' # rest"
    by (cases dim) (simp_all add: startswith_def)
  then show ?thesis
    by (simp add: process_input_dim_def startswith_def)
qed

lemma composite_step_resolution:
  assumes composite: "startswith dim ''(''"
    and in_range: "pos st < length shape"
    and nonzero: "\<forall>v \<in> snd ` set axes_lengths. v \<noteq> 0"
  shows
    "(let members = split (strip_chars dim ''()'');
          unknowns = unknown_members axes_lengths members;
          known = known_product axes_lengths members;
          total = int (shape ! pos st);
          outcome = process_input_dim shape axes_lengths st dim
      in (2 \<le> length unknowns \<longrightarrow> outcome = Inl (EinopsError MultipleUnknownDimensions)) \<and>
         (length unknowns = 1 \<and> \<not> known dvd total \<longrightarrow>
            outcome = Inl (EinopsError NonDivisibleCompositeSize)) \<and>
         (length unknowns = 1 \<and> known dvd total \<longrightarrow>
            (\<exists>st'. outcome = Inr st' \<and> dim_sizes st' (hd unknowns) = Some (total div known))) \<and>
         (unknowns = [] \<and> total \<noteq> known \<longrightarrow>
            outcome = Inl (EinopsError SizeMismatchComposite)) \<and>
         (unknowns = [] \<and> total = known \<longrightarrow> (\<exists>st'. outcome = Inr st')))"
proof -
  define members where "members = split (strip_chars dim ''()'')"
  define unknowns where "unknowns = unknown_members axes_lengths members"
  define known where "known = known_product axes_lengths members"
  define total where "total = int (shape ! pos st)"
  have known_nonzero: "known \<noteq> 0"
    unfolding known_def by (rule known_product_nonzero [OF nonzero])
  have branch: "process_input_dim shape axes_lengths st dim
                  = process_composite shape axes_lengths st dim"
    by (rule composite_branch [OF composite])
  from scan_components_result [of axes_lengths dim members 1 None "dim_sizes st"]
  consider
    (many) "scan_components axes_lengths dim members 1 None (dim_sizes st)
              = Inl (EinopsError MultipleUnknownDimensions)" "2 \<le> length unknowns"
  | (few) sizes' where "scan_components axes_lengths dim members 1 None (dim_sizes st)
              = Inr (known, (case unknowns of [] \<Rightarrow> None | u # us \<Rightarrow> Some u), sizes')"
            "length unknowns < 2"
    by (auto simp: unknowns_def known_def)
  then have
    "(2 \<le> length unknowns \<longrightarrow>
        process_composite shape axes_lengths st dim = Inl (EinopsError MultipleUnknownDimensions)) \<and>
     (length unknowns = 1 \<and> \<not> known dvd total \<longrightarrow>
        process_composite shape axes_lengths st dim = Inl (EinopsError NonDivisibleCompositeSize)) \<and>
     (length unknowns = 1 \<and> known dvd total \<longrightarrow>
        (\<exists>st'. process_composite shape axes_lengths st dim = Inr st' \<and>
            dim_sizes st' (hd unknowns) = Some (total div known))) \<and>
     (unknowns = [] \<and> total \<noteq> known \<longrightarrow>
        process_composite shape axes_lengths st dim = Inl (EinopsError SizeMismatchComposite)) \<and>
     (unknowns = [] \<and> total = known \<longrightarrow>
        (\<exists>st'. process_composite shape axes_lengths st dim = Inr st'))"
  proof cases
    case many
    with in_range show ?thesis
      by (auto simp: process_composite_def members_def [symmetric])
  next
    case few
    show ?thesis
    proof (cases unknowns)
      case Nil
      with few in_range show ?thesis
        by (simp add: process_composite_def members_def [symmetric] total_def [symmetric])
    next
      case (Cons u us)
      with few have us: "us = []" by simp
      with few Cons in_range known_nonzero show ?thesis
        by (simp add: process_composite_def members_def [symmetric] total_def [symmetric]
              mod_eq_0_iff_dvd)
    qed
  qed
  then show ?thesis
    unfolding Let_def branch members_def unknowns_def known_def total_def .
qed

lemma rearrange_input_loop_error:
  assumes "validate_axes_lengths pattern axes_lengths = Inr ()"
    and "parse_pattern pattern = Inr (input_dims, output_dims)"
    and "validate_pattern input_dims output_dims = Inr ()"
    and "process_ellipsis (length (nd_shape (h ! tensor))) input_dims output_dims
           = Inr (full_input_dims, full_output_dims, n_ellipsis)"
    and "process_input_dims (nd_shape (h ! tensor)) axes_lengths init_state full_input_dims = Inl e"
  shows "rearrange h tensor pattern axes_lengths = (Inl e, h)"
  using assms by (simp add: rearrange_def)

lemma process_input_dims_length:
  assumes "process_input_dims shape al st dims = Inr st'"
  shows "pos st' = pos st + length dims"
  using assms
proof (induction dims arbitrary: st)
  case Nil
  then show ?case by simp
next
  case (Cons d ds)
  from Cons.prems obtain st1 where
    step: "process_input_dim shape al st d = Inr st1" and
    rest: "process_input_dims shape al st1 ds = Inr st'"
    by (auto split: sum.splits)
  from step have "pos st1 = pos st + 1"
    by (auto simp: process_input_dim_def process_composite_def Let_def
             split: if_splits option.splits sum.splits prod.splits)
  with Cons.IH [OF rest] show ?case by simp
qed

text \<open>
  Claim C4: for a composite input token whose axis has size \<open>total\<close>, where no length
  the caller gave is 0 (the data model has them positive). The token is the one the
  input loop reaches after it has accepted the tokens before it, in a call whose
  pattern passed the validations. Two or more members without a length: the call fails
  with \<open>Multiple unknown dimensions\<close>. Exactly one such member: it is bound to \<open>total\<close>
  divided by the product of the others' lengths, and the call fails with the
  cannot-divide error unless that division is exact. Every member known: \<open>total\<close> must
  equal the product, and the call fails with the size-mismatch error otherwise.
\<close>

theorem composite_token_resolution:
  assumes valid: "validate_axes_lengths pattern axes_lengths = Inr ()"
    and parsed: "parse_pattern pattern = Inr (input_dims, output_dims)"
    and checked: "validate_pattern input_dims output_dims = Inr ()"
    and expanded: "process_ellipsis (length (nd_shape (h ! tensor))) input_dims output_dims
                     = Inr (before @ dim # after, full_output_dims, n_ellipsis)"
    and resolved: "process_input_dims (nd_shape (h ! tensor)) axes_lengths init_state before = Inr st"
    and composite: "startswith dim ''(''"
    and in_range: "length before < length (nd_shape (h ! tensor))"
    and nonzero: "\<forall>v \<in> snd ` set axes_lengths. v \<noteq> 0"
  shows
    "(let members = split (strip_chars dim ''()'');
          unknowns = unknown_members axes_lengths members;
          known = known_product axes_lengths members;
          total = int (nd_shape (h ! tensor) ! length before);
          outcome = rearrange h tensor pattern axes_lengths;
          bound = process_input_dims (nd_shape (h ! tensor)) axes_lengths init_state (before @ [dim])
      in (2 \<le> length unknowns \<longrightarrow>
            outcome = (Inl (EinopsError MultipleUnknownDimensions), h)) \<and>
         (length unknowns = 1 \<and> \<not> known dvd total \<longrightarrow>
            outcome = (Inl (EinopsError NonDivisibleCompositeSize), h)) \<and>
         (length unknowns = 1 \<and> known dvd total \<longrightarrow>
            (\<exists>st'. bound = Inr st' \<and> dim_sizes st' (hd unknowns) = Some (total div known))) \<and>
         (unknowns = [] \<and> total \<noteq> known \<longrightarrow>
            outcome = (Inl (EinopsError SizeMismatchComposite), h)) \<and>
         (unknowns = [] \<and> total = known \<longrightarrow> (\<exists>st'. bound = Inr st')))"
proof -
  define shape where "shape = nd_shape (h ! tensor)"
  have at: "pos st = length before"
    using process_input_dims_length [OF resolved] by (simp add: init_state_def)
  with in_range have in_range': "pos st < length shape"
    by (simp add: shape_def)
  have raised: "rearrange h tensor pattern axes_lengths = (Inl e, h)"
    if "process_input_dim shape axes_lengths st dim = Inl e" for e
  proof -
    from that resolved
    have "process_input_dims shape axes_lengths init_state (before @ dim # after) = Inl e"
      by (simp add: process_input_dims_append shape_def)
    then show ?thesis
      unfolding shape_def
      by (rule rearrange_input_loop_error [OF valid parsed checked expanded])
  qed
  have bound: "process_input_dims shape axes_lengths init_state (before @ [dim]) = Inr st'"
    if "process_input_dim shape axes_lengths st dim = Inr st'" for st'
    using that resolved by (simp add: process_input_dims_append shape_def)
  from composite_step_resolution [OF composite in_range' nonzero] raised bound
  show ?thesis
    unfolding Let_def at shape_def [symmetric] by metis
qed


text \<open>
  The scenario of the specification, for every array of shape \<open>(12, 10)\<close>, and the four
  outcomes at concrete calls.
\<close>

lemma multiple_unknown_scenario:
  assumes "nd_shape (h ! tensor) = [12, 10]"
  shows "rearrange h tensor ''(a b c) d -> a b c d'' []
           = (Inl (EinopsError MultipleUnknownDimensions), h)"
  using assms by (simp add: rearrange_eval)

theorem composite_token_resolution_witness:
  "rearrange [\<lparr>nd_shape = [12, 10], nd_data = replicate 120 (7::int)\<rparr>] 0
       ''(a b c) d -> a b c d'' []
     = (Inl (EinopsError MultipleUnknownDimensions),
        [\<lparr>nd_shape = [12, 10], nd_data = replicate 120 (7::int)\<rparr>])
   \<and> rearrange [\<lparr>nd_shape = [3, 4], nd_data = replicate 12 (7::int)\<rparr>] 0
       ''a (b c) -> a b c'' [(''b'', 3)]
     = (Inl (EinopsError NonDivisibleCompositeSize),
        [\<lparr>nd_shape = [3, 4], nd_data = replicate 12 (7::int)\<rparr>])
   \<and> rearrange [\<lparr>nd_shape = [12, 10], nd_data = replicate 120 (7::int)\<rparr>] 0
       ''(h w) c -> h w c'' [(''h'', 3), (''w'', 5)]
     = (Inl (EinopsError SizeMismatchComposite),
        [\<lparr>nd_shape = [12, 10], nd_data = replicate 120 (7::int)\<rparr>])
   \<and> (\<exists>st'. process_input_dims [12, 10] [(''h'', 3)] init_state [''(h w)''] = Inr st' \<and>
              dim_sizes st' ''w'' = Some 4)"
proof -
  let ?h12 = "[\<lparr>nd_shape = [12, 10], nd_data = replicate 120 (7::int)\<rparr>]"
  let ?h34 = "[\<lparr>nd_shape = [3, 4], nd_data = replicate 12 (7::int)\<rparr>]"
  have composite: "startswith ''(a b c)'' ''(''" "startswith ''(b c)'' ''(''"
    "startswith ''(h w)'' ''(''"
    by (simp_all add: startswith_def)
  have members: "split (strip_chars ''(a b c)'' ''()'') = [''a'', ''b'', ''c'']"
    "split (strip_chars ''(b c)'' ''()'') = [''b'', ''c'']"
    "split (strip_chars ''(h w)'' ''()'') = [''h'', ''w'']"
    by (simp_all add: str_defs)
  have nowhere: "process_input_dims (nd_shape (?h12 ! 0)) al init_state [] = Inr init_state" for al
    by simp

  have many: "rearrange ?h12 0 ''(a b c) d -> a b c d'' []
                = (Inl (EinopsError MultipleUnknownDimensions), ?h12)"
  proof -
    have valid: "validate_axes_lengths ''(a b c) d -> a b c d'' [] = Inr ()"
      by (simp add: validate_axes_lengths_def)
    have parsed: "parse_pattern ''(a b c) d -> a b c d''
                    = Inr ([''(a b c)'', ''d''], [''a'', ''b'', ''c'', ''d''])"
      by (simp add: parse_pattern_def str_defs)
    have checked: "validate_pattern [''(a b c)'', ''d''] [''a'', ''b'', ''c'', ''d''] = Inr ()"
      by (simp add: validate_pattern_def endswith_def)
    have expanded: "process_ellipsis (length (nd_shape (?h12 ! 0))) [''(a b c)'', ''d'']
                      [''a'', ''b'', ''c'', ''d'']
                    = Inr ([] @ ''(a b c)'' # [''d''], [''a'', ''b'', ''c'', ''d''], 0)"
      by (simp add: process_ellipsis_def Let_def)
    have in_range: "length ([] :: string list) < length (nd_shape (?h12 ! 0))" by simp
    have nonzero: "\<forall>v \<in> snd ` set ([] :: axes_lengths). v \<noteq> 0" by simp
    from composite_token_resolution
      [OF valid parsed checked expanded nowhere composite(1) in_range nonzero]
    show ?thesis by (simp add: members Let_def)
  qed

  have indivisible: "rearrange ?h34 0 ''a (b c) -> a b c'' [(''b'', 3)]
                = (Inl (EinopsError NonDivisibleCompositeSize), ?h34)"
  proof -
    have valid: "validate_axes_lengths ''a (b c) -> a b c'' [(''b'', 3)] = Inr ()"
      by (simp add: validate_axes_lengths_def collect_identifiers_def str_defs)
    have parsed: "parse_pattern ''a (b c) -> a b c''
                    = Inr ([''a'', ''(b c)''], [''a'', ''b'', ''c''])"
      by (simp add: parse_pattern_def str_defs)
    have checked: "validate_pattern [''a'', ''(b c)''] [''a'', ''b'', ''c''] = Inr ()"
      by (simp add: validate_pattern_def endswith_def)
    have expanded: "process_ellipsis (length (nd_shape (?h34 ! 0))) [''a'', ''(b c)'']
                      [''a'', ''b'', ''c'']
                    = Inr ([''a''] @ ''(b c)'' # [], [''a'', ''b'', ''c''], 0)"
      by (simp add: process_ellipsis_def Let_def)
    have resolved: "process_input_dims (nd_shape (?h34 ! 0)) [(''b'', 3)] init_state [''a'']
                      = Inr \<lparr>dim_sizes = [''a'' \<mapsto> 3], composite_dims = Map.empty, pos = 1,
                             input_dim_to_pos = [''a'' \<mapsto> 0]\<rparr>"
      by (simp add: init_state_def process_input_dim_def startswith_def)
    have in_range: "length [''a''] < length (nd_shape (?h34 ! 0))" by simp
    have nonzero: "\<forall>v \<in> snd ` set [(''b'', 3 :: int)]. v \<noteq> 0" by simp
    from composite_token_resolution
      [OF valid parsed checked expanded resolved composite(2) in_range nonzero]
    show ?thesis by (simp add: members Let_def)
  qed

  have parsed_hw: "parse_pattern ''(h w) c -> h w c''
                  = Inr ([''(h w)'', ''c''], [''h'', ''w'', ''c''])"
    by (simp add: parse_pattern_def str_defs)
  have checked_hw: "validate_pattern [''(h w)'', ''c''] [''h'', ''w'', ''c''] = Inr ()"
    by (simp add: validate_pattern_def endswith_def)
  have expanded_hw: "process_ellipsis (length (nd_shape (?h12 ! 0))) [''(h w)'', ''c'']
                    [''h'', ''w'', ''c'']
                  = Inr ([] @ ''(h w)'' # [''c''], [''h'', ''w'', ''c''], 0)"
    by (simp add: process_ellipsis_def Let_def)
  have in_range_hw: "length ([] :: string list) < length (nd_shape (?h12 ! 0))" by simp

  have mismatch: "rearrange ?h12 0 ''(h w) c -> h w c'' [(''h'', 3), (''w'', 5)]
                = (Inl (EinopsError SizeMismatchComposite), ?h12)"
  proof -
    have valid: "validate_axes_lengths ''(h w) c -> h w c'' [(''h'', 3), (''w'', 5)] = Inr ()"
      by (simp add: validate_axes_lengths_def collect_identifiers_def str_defs)
    have nonzero: "\<forall>v \<in> snd ` set [(''h'', 3 :: int), (''w'', 5)]. v \<noteq> 0" by simp
    from composite_token_resolution
      [OF valid parsed_hw checked_hw expanded_hw nowhere composite(3) in_range_hw nonzero]
    show ?thesis by (simp add: members Let_def)
  qed

  have inferred: "\<exists>st'. process_input_dims [12, 10] [(''h'', 3)] init_state [''(h w)''] = Inr st' \<and>
                    dim_sizes st' ''w'' = Some 4"
  proof -
    have valid: "validate_axes_lengths ''(h w) c -> h w c'' [(''h'', 3)] = Inr ()"
      by (simp add: validate_axes_lengths_def collect_identifiers_def str_defs)
    have nonzero: "\<forall>v \<in> snd ` set [(''h'', 3 :: int)]. v \<noteq> 0" by simp
    from composite_token_resolution
      [OF valid parsed_hw checked_hw expanded_hw nowhere composite(3) in_range_hw nonzero]
    show ?thesis by (simp add: members Let_def)
  qed

  from many indivisible mismatch inferred show ?thesis by blast
qed

section \<open>Tokens that begin with the ellipsis prefix\<close>

text \<open>
  Claim C10: an input token that begins with \<open>_d\<close> takes the branch written for the
  names an ellipsis expands to, also when the user wrote it: it is bound to the input
  size at the cursor whatever length the caller gave for it, and a cursor past the
  shape is an \<open>IndexError\<close>, not the \<open>Not enough dimensions\<close> error. The first name an
  ellipsis expands to is \<open>_d0\<close> itself, so in \<open>_d0 ... -> _d0 ...\<close> the user's axis and the
  first axis of the ellipsis are one name. On an array of shape \<open>(2,)\<close>: a length of 5
  for \<open>_d0\<close> is ignored where the same length for \<open>a\<close> is a size mismatch, and a second
  token \<open>_d1\<close> reads past the shape where a second token \<open>b\<close> raises the documented error.
\<close>

theorem underscore_d_token_takes_ellipsis_branch:
  assumes "startswith dim ''_d''" and "tensor < length h" and "nd_shape (h ! tensor) = [2]"
  shows "process_input_dim shape axes_lengths st dim =
           (if pos st < length shape
            then Inr (st\<lparr>dim_sizes := (dim_sizes st)(dim \<mapsto> int (shape ! pos st)),
                         input_dim_to_pos := (input_dim_to_pos st)(dim \<mapsto> pos st),
                         pos := pos st + 1\<rparr>)
            else Inl IndexError)
         \<and> ellipsis_name 0 = ''_d0''
         \<and> process_ellipsis 2 [''_d0'', ''...''] [''_d0'', ''...'']
             = Inr ([''_d0'', ''_d0''], [''_d0'', ''_d0''], 1)
         \<and> result_array (rearrange h tensor ''_d0 -> _d0'' [(''_d0'', 5)]) = Inr (h ! tensor)
         \<and> result_array (rearrange h tensor ''a -> a'' [(''a'', 5)])
             = Inl (EinopsError DimensionSizeMismatch)
         \<and> result_array (rearrange h tensor ''a _d1 -> a _d1'' []) = Inl IndexError
         \<and> result_array (rearrange h tensor ''a b -> a b'' [])
             = Inl (EinopsError NotEnoughDimensions)"
proof -
  have step: "process_input_dim shape axes_lengths st dim =
           (if pos st < length shape
            then Inr (st\<lparr>dim_sizes := (dim_sizes st)(dim \<mapsto> int (shape ! pos st)),
                         input_dim_to_pos := (input_dim_to_pos st)(dim \<mapsto> pos st),
                         pos := pos st + 1\<rparr>)
            else Inl IndexError)"
    using assms(1) by (simp add: process_input_dim_def)
  have name: "ellipsis_name 0 = ''_d0''"
    by (simp add: ellipsis_name_def str_nat.simps digit_char_def)
  have expanded: "process_ellipsis 2 [''_d0'', ''...''] [''_d0'', ''...'']
                    = Inr ([''_d0'', ''_d0''], [''_d0'', ''_d0''], 1)"
    by (simp add: process_ellipsis_def slice_upto_def slice_from_def name Let_def)
  have ignored: "result_array (rearrange h tensor ''_d0 -> _d0'' [(''_d0'', 5)]) = Inr (h ! tensor)"
    using assms(3) by (simp add: rearrange_eval result_array_def)
  have mismatch: "result_array (rearrange h tensor ''a -> a'' [(''a'', 5)])
                    = Inl (EinopsError DimensionSizeMismatch)"
    using assms(3) by (simp add: rearrange_eval result_array_def)
  have past: "result_array (rearrange h tensor ''a _d1 -> a _d1'' []) = Inl IndexError"
    using assms(3) by (simp add: rearrange_eval result_array_def)
  have guarded: "result_array (rearrange h tensor ''a b -> a b'' [])
                   = Inl (EinopsError NotEnoughDimensions)"
    using assms(3) by (simp add: rearrange_eval result_array_def)
  from step name expanded ignored mismatch past guarded show ?thesis by blast
qed

theorem underscore_d_token_takes_ellipsis_branch_witness:
  "startswith ''_d0'' ''_d''
   \<and> (0::nat) < length [\<lparr>nd_shape = [2], nd_data = [7, 8 :: int]\<rparr>]
   \<and> process_input_dim [2] [(''_d0'', 5)] init_state ''_d0''
       = Inr \<lparr>dim_sizes = [''_d0'' \<mapsto> 2], composite_dims = Map.empty, pos = 1,
              input_dim_to_pos = [''_d0'' \<mapsto> 0]\<rparr>
   \<and> result_array (rearrange [\<lparr>nd_shape = [2], nd_data = [7, 8 :: int]\<rparr>] 0 ''_d0 -> _d0'' [(''_d0'', 5)])
       = Inr \<lparr>nd_shape = [2], nd_data = [7, 8 :: int]\<rparr>
   \<and> result_array (rearrange [\<lparr>nd_shape = [2], nd_data = [7, 8 :: int]\<rparr>] 0 ''a _d1 -> a _d1'' [])
       = Inl IndexError"
proof -
  have 1: "startswith ''_d0'' ''_d''" by (simp add: startswith_def)
  have 2: "(0::nat) < length [\<lparr>nd_shape = [2], nd_data = [7, 8 :: int]\<rparr>]" by simp
  have 3: "nd_shape ([\<lparr>nd_shape = [2], nd_data = [7, 8 :: int]\<rparr>] ! 0) = [2]" by simp
  from underscore_d_token_takes_ellipsis_branch [OF 1 2 3, of "[2]" "[(''_d0'', 5)]" init_state]
  show ?thesis using 1 by (simp add: init_state_def)
qed

section \<open>Merging the last two axes behind an ellipsis\<close>

subsection \<open>Decimal names\<close>

lemma index_nth_distinct:
  assumes "distinct xs" and "i < length xs"
  shows "index xs (xs ! i) = i"
  using assms
proof (induction xs arbitrary: i)
  case Nil
  then show ?case by simp
next
  case (Cons x xs)
  show ?case
  proof (cases i)
    case 0
    then show ?thesis by simp
  next
    case (Suc i')
    with Cons.prems have "i' < length xs" and "distinct xs" and "xs ! i' \<noteq> x"
      by auto
    with Cons.IH [of i'] Suc show ?thesis by simp
  qed
qed

lemma index_digit_char:
  assumes "d < 10"
  shows "index ''0123456789'' (digit_char d) = d"
  unfolding digit_char_def
  by (rule index_nth_distinct) (use assms in simp_all)

lemma nat_of_str_append:
  "nat_of_str (s @ [c]) = 10 * nat_of_str s + index ''0123456789'' c"
  by (simp add: nat_of_str_def del: index.simps)

lemma nat_of_str_single: "nat_of_str [c] = index ''0123456789'' c"
  by (simp add: nat_of_str_def del: index.simps)

lemma nat_of_str_str_nat: "nat_of_str (str_nat n) = n"
proof (induction n rule: str_nat.induct)
  case (1 n)
  show ?case
  proof (cases "n < 10")
    case True
    then have "str_nat n = [digit_char n]" by (simp add: str_nat.simps)
    with True show ?thesis
      by (simp add: nat_of_str_single index_digit_char del: index.simps)
  next
    case False
    then have "str_nat n = str_nat (n div 10) @ [digit_char (n mod 10)]"
      by (subst str_nat.simps) simp
    moreover have "nat_of_str (str_nat (n div 10)) = n div 10"
      using False by (rule "1.IH")
    ultimately show ?thesis
      by (simp add: nat_of_str_append index_digit_char del: index.simps)
  qed
qed

lemma str_nat_inj: "str_nat i = str_nat j \<Longrightarrow> i = j"
  by (metis nat_of_str_str_nat)

lemma digit_char_in_digits:
  assumes "d < 10"
  shows "digit_char d \<in> set ''0123456789''"
  unfolding digit_char_def using assms by (intro nth_mem) simp

lemma str_nat_digits: "set (str_nat n) \<subseteq> set ''0123456789''"
proof (induction n rule: str_nat.induct)
  case (1 n)
  show ?case
  proof (cases "n < 10")
    case True
    then have "str_nat n = [digit_char n]" by (simp add: str_nat.simps)
    with digit_char_in_digits [OF True] show ?thesis by simp
  next
    case False
    then have eq: "str_nat n = str_nat (n div 10) @ [digit_char (n mod 10)]"
      by (subst str_nat.simps) simp
    have "set (str_nat (n div 10)) \<subseteq> set ''0123456789''"
      using False by (rule "1.IH")
    moreover have "digit_char (n mod 10) \<in> set ''0123456789''"
      by (rule digit_char_in_digits) simp
    ultimately show ?thesis unfolding eq by simp
  qed
qed

lemma ellipsis_name_inj: "ellipsis_name i = ellipsis_name j \<Longrightarrow> i = j"
  by (simp add: ellipsis_name_def str_nat_inj)

lemma ellipsis_name_startswith: "startswith (ellipsis_name i) ''_d''"
  by (simp add: ellipsis_name_def startswith_def)

lemma ellipsis_name_no_paren: "CHR ''('' \<notin> set (ellipsis_name i)"
  using str_nat_digits [of i] by (auto simp: ellipsis_name_def)

lemma ellipsis_name_neq [simp]:
  "ellipsis_name i \<noteq> ''...''" "ellipsis_name i \<noteq> ''h''" "ellipsis_name i \<noteq> ''w''"
  by (simp_all add: ellipsis_name_def)

subsection \<open>The input loop on the expanded ellipsis\<close>

lemma process_ellipsis_names:
  assumes "m \<le> length shape"
  shows "\<exists>st. process_input_dims shape al init_state (map ellipsis_name [0..<m]) = Inr st \<and>
              pos st = m \<and>
              (\<forall>j<m. dim_sizes st (ellipsis_name j) = Some (int (shape ! j)))"
  using assms
proof (induction m)
  case 0
  show ?case by (simp add: init_state_def)
next
  case (Suc m)
  then obtain st where st: "process_input_dims shape al init_state (map ellipsis_name [0..<m]) = Inr st"
    and p: "pos st = m"
    and sizes: "\<forall>j<m. dim_sizes st (ellipsis_name j) = Some (int (shape ! j))"
    by auto
  define st' where "st' = st\<lparr>dim_sizes := (dim_sizes st)(ellipsis_name m \<mapsto> int (shape ! m)),
                             input_dim_to_pos := (input_dim_to_pos st)(ellipsis_name m \<mapsto> m),
                             pos := m + 1\<rparr>"
  from Suc.prems p have step: "process_input_dim shape al st (ellipsis_name m) = Inr st'"
    by (simp add: process_input_dim_def ellipsis_name_startswith st'_def)
  have "process_input_dims shape al init_state (map ellipsis_name [0..<Suc m]) = Inr st'"
    by (simp add: process_input_dims_append st step)
  moreover have "pos st' = Suc m" by (simp add: st'_def)
  moreover have "\<forall>j<Suc m. dim_sizes st' (ellipsis_name j) = Some (int (shape ! j))"
  proof (intro allI impI)
    fix j assume "j < Suc m"
    show "dim_sizes st' (ellipsis_name j) = Some (int (shape ! j))"
    proof (cases "j = m")
      case True
      then show ?thesis by (simp add: st'_def)
    next
      case False
      with \<open>j < Suc m\<close> have "j < m" by simp
      moreover from False have "ellipsis_name j \<noteq> ellipsis_name m"
        using ellipsis_name_inj by blast
      ultimately show ?thesis using sizes by (simp add: st'_def)
    qed
  qed
  ultimately show ?case by blast
qed

subsection \<open>The output loop on bound plain names\<close>

lemma output_shape_plain_names:
  assumes "\<forall>d \<in> set ds. d \<noteq> ''...'' \<and> CHR ''('' \<notin> set d \<and> (\<exists>v. sizes d = Some v)"
  shows "calculate_output_shape [] sizes n_ellipsis (ds @ rest) final_shape repeat_indices
           = calculate_output_shape [] sizes n_ellipsis rest
               (final_shape @ map (\<lambda>d. the (sizes d)) ds) repeat_indices"
  using assms
proof (induction ds arbitrary: final_shape)
  case Nil
  show ?case by simp
next
  case (Cons d ds)
  then obtain v where "sizes d = Some v" "d \<noteq> ''...''" "CHR ''('' \<notin> set d"
    by auto
  moreover have "\<forall>d \<in> set ds. d \<noteq> ''...'' \<and> CHR ''('' \<notin> set d \<and> (\<exists>v. sizes d = Some v)"
    using Cons.prems by simp
  ultimately show ?case
    using Cons.IH [of "final_shape @ [v]"] by (simp add: getitem_def)
qed


subsection \<open>Shapes of rank at least two\<close>

lemma split_last_two:
  assumes "length s = n + 2"
  shows "s = take n s @ [s ! n, s ! Suc n]"
proof -
  have "drop n s = [s ! n, s ! Suc n]"
  proof (rule nth_equalityI)
    show "length (drop n s) = length [s ! n, s ! Suc n]" using assms by simp
  next
    fix i assume "i < length (drop n s)"
    with assms have "i < 2" by simp
    then have "i = 0 \<or> i = 1" by auto
    with assms show "drop n s ! i = [s ! n, s ! Suc n] ! i" by auto
  qed
  then show ?thesis by (metis append_take_drop_id)
qed

lemma map_nth_upt_take:
  assumes "n \<le> length s"
  shows "map (\<lambda>j. s ! j) [0..<n] = take n s"
  using assms by (simp add: list_eq_iff_nth_eq)

lemma prod_list_map_int: "prod_list (map int xs) = int (prod_list xs)"
  by (induction xs) simp_all

lemma reshape_nonneg:
  assumes "\<forall>d \<in> set newshape. 0 \<le> d" and "int (prod_list (nd_shape a)) = prod_list newshape"
  shows "reshape_array a newshape = Inr (a\<lparr>nd_shape := map nat newshape\<rparr>)"
proof -
  from assms(1) have "filter (\<lambda>d. 0 \<le> d) newshape = newshape" by (simp add: filter_id_conv)
  moreover from assms(1) have "filter (\<lambda>d. d < 0) newshape = []"
    by (auto simp: filter_empty_conv)
  ultimately show ?thesis using assms(2) by (simp add: reshape_array_def Let_def)
qed

lemma ellipsis_merge_eval:
  assumes rank: "length (nd_shape (h ! tensor)) = n + 2"
  shows "rearrange h tensor ''... h w -> ... (h w)'' [] =
           (Inr (length h),
            h @ [(h ! tensor)\<lparr>nd_shape := take n (nd_shape (h ! tensor))
                                   @ [nd_shape (h ! tensor) ! n * nd_shape (h ! tensor) ! Suc n]\<rparr>])"
proof -
  define s where "s = nd_shape (h ! tensor)"
  define names where "names = map ellipsis_name [0..<n]"
  have len: "length s = n + 2" using rank by (simp add: s_def)
  have valid: "validate_axes_lengths ''... h w -> ... (h w)'' [] = Inr ()"
    by (simp add: validate_axes_lengths_def)
  have parsed: "parse_pattern ''... h w -> ... (h w)''
                  = Inr ([''...'', ''h'', ''w''], [''...'', ''(h w)''])"
    by (simp add: parse_pattern_def str_defs)
  have checked: "validate_pattern [''...'', ''h'', ''w''] [''...'', ''(h w)''] = Inr ()"
    by (simp add: validate_pattern_def endswith_def)
  have expanded: "process_ellipsis (length s) [''...'', ''h'', ''w''] [''...'', ''(h w)'']
                    = Inr (names @ [''h'', ''w''], names @ [''(h w)''], n)"
    using len by (simp add: process_ellipsis_def slice_upto_def slice_from_def names_def Let_def)
  from process_ellipsis_names [of n s "[]"] len obtain st0 where
    st0: "process_input_dims s [] init_state names = Inr st0" and
    pos0: "pos st0 = n" and
    sizes0: "\<forall>j<n. dim_sizes st0 (ellipsis_name j) = Some (int (s ! j))"
    by (auto simp: names_def)
  define st2 where "st2 = st0\<lparr>dim_sizes := (dim_sizes st0)(''h'' \<mapsto> int (s ! n), ''w'' \<mapsto> int (s ! Suc n)),
                              input_dim_to_pos := (input_dim_to_pos st0)(''h'' \<mapsto> n, ''w'' \<mapsto> Suc n),
                              pos := n + 2\<rparr>"
  have tail: "process_input_dims s [] st0 [''h'', ''w''] = Inr st2"
    using len pos0 by (simp add: process_input_dim_def startswith_def st2_def)
  have resolved: "process_input_dims s [] init_state (names @ [''h'', ''w'']) = Inr st2"
    by (simp add: process_input_dims_append st0 tail del: process_input_dims.simps)
  have sizes2: "dim_sizes st2 (ellipsis_name j) = Some (int (s ! j))" if "j < n" for j
    using that sizes0 by (simp add: st2_def)
  have generic: "transposition h tensor (names @ [''h'', ''w'']) (names @ [''(h w)''])
                   (input_dim_to_pos st2) = (Inr tensor, h)"
    by (simp add: transposition_def fast_path_def)
  have bound: "\<forall>d \<in> set names. d \<noteq> ''...'' \<and> CHR ''('' \<notin> set d \<and> (\<exists>v. dim_sizes st2 d = Some v)"
    using sizes2 by (auto simp: names_def ellipsis_name_no_paren)
  have leading: "map (\<lambda>d. the (dim_sizes st2 d)) names = map (\<lambda>j. int (s ! j)) [0..<n]"
    using sizes2 by (simp add: names_def)
  have members: "split (strip_chars ''(h w)'' ''()'') = [''h'', ''w'']"
    by (simp add: str_defs)
  have shape_out: "calculate_output_shape [] (dim_sizes st2) n (names @ [''(h w)'']) [] []
                     = Inr (map (\<lambda>j. int (s ! j)) [0..<n] @ [int (s ! n) * int (s ! Suc n)], [])"
  proof -
    have hw: "dim_sizes st2 ''h'' = Some (int (s ! n))" "dim_sizes st2 ''w'' = Some (int (s ! Suc n))"
      by (simp_all add: st2_def)
    show ?thesis
      unfolding output_shape_plain_names [OF bound]
      by (simp add: members leading getitem_def hw)
  qed
  from split_last_two [OF len]
  have "prod_list s = prod_list (take n s @ [s ! n, s ! Suc n])"
    by (rule arg_cong)
  then have prod_s: "prod_list s = prod_list (take n s) * (s ! n * s ! Suc n)"
    by simp
  have take_s: "map (\<lambda>j. s ! j) [0..<n] = take n s"
    using len by (intro map_nth_upt_take) simp
  have "map (\<lambda>j. int (s ! j)) [0..<n] = map int (map (\<lambda>j. s ! j) [0..<n])"
    by simp
  then have leading_int: "map (\<lambda>j. int (s ! j)) [0..<n] = map int (take n s)"
    by (simp only: take_s)
  have count: "int (prod_list s)
      = prod_list (map (\<lambda>j. int (s ! j)) [0..<n] @ [int (s ! n) * int (s ! Suc n)])"
    by (simp add: leading_int prod_list_map_int prod_s)
  have all_nonneg: "\<forall>d \<in> set (map (\<lambda>j. int (s ! j)) [0..<n] @ [int (s ! n) * int (s ! Suc n)]). 0 \<le> d"
    by auto
  have reshaped: "reshape_array (h ! tensor) (map (\<lambda>j. int (s ! j)) [0..<n] @ [int (s ! n) * int (s ! Suc n)])
      = Inr ((h ! tensor)\<lparr>nd_shape := take n s @ [s ! n * s ! Suc n]\<rparr>)"
    using reshape_nonneg [OF all_nonneg, of "h ! tensor"] count
    by (simp add: s_def [symmetric] leading_int comp_def nat_mult_distrib)
  show ?thesis
    unfolding rearrange_def
    by (simp add: valid parsed checked s_def [symmetric] expanded resolved generic shape_out
          final_operations_def repeat_stage_def final_reshape_def np_reshape_def new_array_def
          reshaped
          del: process_input_dims.simps calculate_output_shape.simps)
qed

text \<open>
  Claim C6: for every array \<open>x\<close> of rank at least 2, \<open>rearrange(x, '... h w -> ... (h w)')\<close>
  succeeds, and the shape of its result is the leading \<open>rank - 2\<close> dimensions of \<open>x\<close> in
  order followed by the product of the last two. The elements keep their order.
\<close>

theorem ellipsis_merge_last_two:
  assumes "tensor < length h" and "2 \<le> length (nd_shape (h ! tensor))"
  shows "\<exists>y. result_array (rearrange h tensor ''... h w -> ... (h w)'' []) = Inr y \<and>
           nd_shape y = take (length (nd_shape (h ! tensor)) - 2) (nd_shape (h ! tensor))
                          @ [prod_list (drop (length (nd_shape (h ! tensor)) - 2) (nd_shape (h ! tensor)))] \<and>
           nd_data y = nd_data (h ! tensor)"
proof -
  define s where "s = nd_shape (h ! tensor)"
  define n where "n = length s - 2"
  from assms(2) have len: "length s = n + 2" by (simp add: s_def n_def)
  have last_two: "drop n s = [s ! n, s ! Suc n]"
    using split_last_two [OF len] len by (metis append_eq_conv_conj length_take min.absorb2 le_add1)
  from ellipsis_merge_eval [of h tensor n] len
  have "result_array (rearrange h tensor ''... h w -> ... (h w)'' [])
          = Inr ((h ! tensor)\<lparr>nd_shape := take n s @ [s ! n * s ! Suc n]\<rparr>)"
    by (simp add: s_def result_array_def)
  then show ?thesis
    using last_two by (simp add: s_def [symmetric] n_def [symmetric])
qed

theorem ellipsis_merge_last_two_witness:
  "(0::nat) < length [\<lparr>nd_shape = [2, 3, 4, 5], nd_data = replicate 120 (7::int)\<rparr>]
   \<and> (2::nat) \<le> length [2, 3, 4, 5 :: nat]
   \<and> (\<exists>y. result_array (rearrange [\<lparr>nd_shape = [2, 3, 4, 5], nd_data = replicate 120 (7::int)\<rparr>] 0
                ''... h w -> ... (h w)'' []) = Inr y \<and>
           nd_shape y = [2, 3, 20] \<and> nd_data y = replicate 120 7)"
proof -
  let ?h = "[\<lparr>nd_shape = [2, 3, 4, 5], nd_data = replicate 120 (7::int)\<rparr>]"
  have 1: "(0::nat) < length ?h" by simp
  have 2: "2 \<le> length (nd_shape (?h ! 0))" by simp
  from ellipsis_merge_last_two [OF 1 2] show ?thesis by simp
qed

section \<open>The repeat stage and the reference executor\<close>

text \<open>
  Claim C8 says that for every non-empty set of repeat instructions the repeat stage and
  the final reshape return what the reference executor returns. The repeat stage first
  inserts a size-1 axis at every target index and only then, in a second pass, inserts
  one more axis per instruction and repeats along it. With the two instructions of
  \<open>rearrange(x, 'a -> b c a', b=2, c=2)\<close> on \<open>x = [10, 11]\<close> the two executors return
  different elements.
\<close>

theorem repeat_stage_reference_counterexample:
  "result_array (final_operations [\<lparr>nd_shape = [2], nd_data = [10, 11 :: int]\<rparr>] 0 [(0, 2), (1, 2)] [2, 2, 2])
     = Inr \<lparr>nd_shape = [2, 2, 2], nd_data = [10, 11, 10, 11, 10, 11, 10, 11]\<rparr>
   \<and> result_array (reference_final_operations [\<lparr>nd_shape = [2], nd_data = [10, 11 :: int]\<rparr>] 0 [(0, 2), (1, 2)] [2, 2, 2])
     = Inr \<lparr>nd_shape = [2, 2, 2], nd_data = [10, 10, 11, 11, 10, 10, 11, 11]\<rparr>
   \<and> calculate_output_shape [(''b'', 2), (''c'', 2)] [''a'' \<mapsto> 2] 0 [''b'', ''c'', ''a''] [] []
     = Inr ([2, 2, 2], [(0, 2), (1, 2)])"
  by (simp add: exec_defs result_array_def reference_final_operations_def getitem_def nth_append
        upt_rec eval_nat_numeral)

lemma reshape_array_cong:
  assumes "prod_list (nd_shape a) = prod_list (nd_shape b)" and "nd_data a = nd_data b"
  shows "reshape_array a newshape = reshape_array b newshape"
  using assms by (cases a, cases b) (simp add: reshape_array_def Let_def)

lemma at_prefix_length:
  assumes "length p = idx"
  shows "take idx (p @ ys) = p" and "drop idx (p @ ys) = ys"
    and "(p @ y # ys) ! idx = y" and "(p @ y # ys)[idx := v] = p @ v # ys"
    and "take (Suc idx) (p @ y # ys) = p @ [y]" and "drop (Suc idx) (p @ y # ys) = ys"
  using assms by (auto simp: nth_append list_update_append)

lemma repeat_array_inserted_axis:
  assumes "length p = idx" and "0 \<le> count"
  shows "repeat_array \<lparr>nd_shape = p @ 1 # rest, nd_data = d\<rparr> count idx
           = Inr \<lparr>nd_shape = p @ nat count # rest,
                  nd_data = concat (map (\<lambda>i. concat (replicate (nat count)
                                      (take (prod_list rest) (drop (i * prod_list rest) d))))
                                   [0..<prod_list p])\<rparr>"
  using assms by (simp add: repeat_array_def at_prefix_length Let_def)

text \<open>
  Claim C8 as amended: for every array and every single repeat instruction, the repeat
  stage followed by the final reshape returns the same array, or raises the same error,
  as the reference executor followed by the same reshape.
\<close>

theorem single_repeat_matches_reference:
  "result_array (final_operations h current [(idx, count)] final_shape)
     = result_array (reference_final_operations h current [(idx, count)] final_shape)"
proof (cases "length (nd_shape (h ! current)) < idx")
  case True
  then show ?thesis
    by (simp add: exec_defs result_array_def reference_final_operations_def)
next
  case False
  define s where "s = nd_shape (h ! current)"
  define d where "d = nd_data (h ! current)"
  from False have idx: "idx \<le> length s" by (simp add: s_def)
  then have len: "length (take idx s) = idx" by simp
  show ?thesis
  proof (cases "count < 0")
    case True
    with idx show ?thesis
      by (simp add: exec_defs result_array_def reference_final_operations_def nth_append
            s_def [symmetric])
  next
    case False
    then have count: "0 \<le> count" by simp
    define once where "once = \<lparr>nd_shape = take idx s @ 1 # drop idx s, nd_data = d\<rparr>"
    define twice where "twice = \<lparr>nd_shape = take idx s @ 1 # 1 # drop idx s, nd_data = d\<rparr>"
    define repeated where "repeated = concat (map (\<lambda>i. concat (replicate (nat count)
              (take (prod_list (drop idx s)) (drop (i * prod_list (drop idx s)) d))))
              [0..<prod_list (take idx s)])"
    define wide where "wide = \<lparr>nd_shape = take idx s @ nat count # 1 # drop idx s, nd_data = repeated\<rparr>"
    define narrow where "narrow = \<lparr>nd_shape = take idx s @ nat count # drop idx s, nd_data = repeated\<rparr>"
    have e1: "expand_dims_array (h ! current) idx = Inr once"
      using idx by (cases "h ! current") (simp add: expand_dims_array_def once_def s_def d_def)
    have e2: "expand_dims_array once idx = Inr twice"
      using idx by (simp add: expand_dims_array_def once_def twice_def at_prefix_length [OF len])
    have r2: "repeat_array twice count idx = Inr wide"
      unfolding twice_def wide_def repeated_def
      using repeat_array_inserted_axis [OF len count, of "1 # drop idx s" d] by simp
    have r1: "repeat_array once count idx = Inr narrow"
      unfolding once_def narrow_def repeated_def
      by (rule repeat_array_inserted_axis [OF len count])
    have same: "reshape_array wide final_shape = reshape_array narrow final_shape"
      by (rule reshape_array_cong) (simp_all add: wide_def narrow_def)
    have code: "result_array (final_operations h current [(idx, count)] final_shape)
                  = (case reshape_array wide final_shape of
                       Inl ValueError \<Rightarrow> Inl (EinopsError ReshapeIncompatible)
                     | Inl e \<Rightarrow> Inl e
                     | Inr a \<Rightarrow> Inr a)"
      by (simp add: sorted_repeat_indices_def repeat_stage_def final_reshape_def
            final_operations_def np_reshape_def np_repeat_def np_expand_dims_def new_array_def
            result_array_def nth_append e1 e2 r2
            split: sum.splits pyerror.splits)
    have reference: "result_array (reference_final_operations h current [(idx, count)] final_shape)
                  = (case reshape_array narrow final_shape of
                       Inl ValueError \<Rightarrow> Inl (EinopsError ReshapeIncompatible)
                     | Inl e \<Rightarrow> Inl e
                     | Inr a \<Rightarrow> Inr a)"
      by (simp add: sorted_repeat_indices_def reference_final_operations_def final_reshape_def
            np_reshape_def np_repeat_def np_expand_dims_def new_array_def
            result_array_def nth_append e1 r1
            split: sum.splits pyerror.splits)
    show ?thesis
      unfolding code reference same ..
  qed
qed

end
